theory Spec2Isabelle
  imports Complex_Main
begin

section \<open>Python strings\<close>

text \<open>
  Strings are character lists.  The classification and case functions of Python's
  \<^verbatim>\<open>str\<close> are modelled on the ASCII range: \<^verbatim>\<open>isalpha\<close>, \<^verbatim>\<open>isdigit\<close>,
  \<^verbatim>\<open>lower\<close>, \<^verbatim>\<open>title\<close> and the white space that \<^verbatim>\<open>strip\<close> removes.
\<close>

definition ascii_uppercase :: string where
  "ascii_uppercase = ''ABCDEFGHIJKLMNOPQRSTUVWXYZ''"

definition ascii_lowercase :: string where
  "ascii_lowercase = ''abcdefghijklmnopqrstuvwxyz''"

definition ascii_digits :: string where
  "ascii_digits = ''0123456789''"

definition whitespace :: string where
  "whitespace = [CHR 0x09, CHR 0x0A, CHR 0x0B, CHR 0x0C, CHR 0x0D,
                 CHR 0x1C, CHR 0x1D, CHR 0x1E, CHR 0x1F, CHR 0x20]"

definition isalpha :: "char \<Rightarrow> bool" where
  "isalpha c = (c \<in> set ascii_uppercase \<or> c \<in> set ascii_lowercase)"

definition isdigit :: "char \<Rightarrow> bool" where
  "isdigit c = (c \<in> set ascii_digits)"

definition isalnum :: "char \<Rightarrow> bool" where
  "isalnum c = (isalpha c \<or> isdigit c)"

definition isspace :: "char \<Rightarrow> bool" where
  "isspace c = (c \<in> set whitespace)"

definition lower_char :: "char \<Rightarrow> char" where
  "lower_char c = (case map_of (zip ascii_uppercase ascii_lowercase) c of
                     Some d \<Rightarrow> d | None \<Rightarrow> c)"

definition upper_char :: "char \<Rightarrow> char" where
  "upper_char c = (case map_of (zip ascii_lowercase ascii_uppercase) c of
                     Some d \<Rightarrow> d | None \<Rightarrow> c)"

definition lower :: "string \<Rightarrow> string" where
  "lower s = map lower_char s"

definition strip :: "string \<Rightarrow> string" where
  "strip s = rev (dropWhile isspace (rev (dropWhile isspace s)))"

text \<open>\<^verbatim>\<open>s.replace(a, b)\<close> for one-character \<^verbatim>\<open>a\<close> and \<^verbatim>\<open>b\<close>.\<close>

definition replace_char :: "char \<Rightarrow> char \<Rightarrow> string \<Rightarrow> string" where
  "replace_char a b s = map (\<lambda>c. if c = a then b else c) s"

text \<open>
  \<^verbatim>\<open>s.title()\<close>: the first letter of every run of letters is put in upper case, the
  others in lower case.  The flag says whether the previous character was a letter.
\<close>

fun title_from :: "bool \<Rightarrow> string \<Rightarrow> string" where
  "title_from prev [] = []"
| "title_from prev (c # cs) =
     (if isalpha c then (if prev then lower_char c else upper_char c) # title_from True cs
      else c # title_from False cs)"

definition title :: "string \<Rightarrow> string" where
  "title s = title_from False s"

text \<open>\<^verbatim>\<open>sub in s\<close> for strings.\<close>

fun py_in :: "string \<Rightarrow> string \<Rightarrow> bool" where
  "py_in sub [] = (sub = [])"
| "py_in sub (c # cs) = (take (length sub) (c # cs) = sub \<or> py_in sub cs)"

text \<open>
  \<^verbatim>\<open>s.split(sep)\<close> for a non-empty separator: the pieces between the non-overlapping
  occurrences of \<^verbatim>\<open>sep\<close>, found from the left.  \<open>acc\<close> holds the current piece, reversed.
  Python raises \<^verbatim>\<open>ValueError\<close> on an empty separator; the code only splits on literals.
\<close>

fun split_from :: "string \<Rightarrow> string \<Rightarrow> string \<Rightarrow> string list" where
  "split_from [] acc s = []"
| "split_from (p # sep) acc [] = [rev acc]"
| "split_from (p # sep) acc (c # cs) =
     (if c = p \<and> take (length sep) cs = sep
      then rev acc # split_from (p # sep) [] (drop (length sep) cs)
      else split_from (p # sep) (c # acc) cs)"

definition py_split :: "string \<Rightarrow> string \<Rightarrow> string list" where
  "py_split sep s = split_from sep [] s"

text \<open>
  \<^verbatim>\<open>os.path.join(a, b)\<close> and \<^verbatim>\<open>os.path.basename\<close>, for paths with \<^verbatim>\<open>/\<close>: an
  absolute \<open>b\<close> replaces \<open>a\<close>, and no separator is added to an empty \<open>a\<close> or after a
  separator.
\<close>

definition path_join :: "string \<Rightarrow> string \<Rightarrow> string" where
  "path_join a b =
     (if take 1 b = ''/'' then b
      else if a = [] \<or> last a = CHR ''/'' then a @ b
      else a @ ''/'' @ b)"

definition basename :: "string \<Rightarrow> string" where
  "basename path = rev (takeWhile (\<lambda>c. c \<noteq> CHR ''/'') (rev path))"

text \<open>\<^verbatim>\<open>enumerate(xs)\<close>.\<close>

definition py_enumerate :: "'a list \<Rightarrow> (nat \<times> 'a) list" where
  "py_enumerate xs = List.enumerate 0 xs"

section \<open>Data model\<close>

text \<open>
  The exceptions the modelled code can raise.  \<open>ServiceError\<close> stands for any exception
  of the vector store's query.
\<close>

datatype py_error = KeyError | IndexError | ServiceError | FileNotFoundError

text \<open>
  A candidate of the similarity search, as \<^verbatim>\<open>search_canonical_field_batch\<close> builds it:
  \<^verbatim>\<open>{"field_id": .., "score": .., "metadata": {"field_id": .., "canonical_name": ..,
  "data_type": ..}}\<close>.  Python floats are modelled as real numbers.
\<close>

record metadata =
  m_field_id :: string
  m_canonical_name :: string
  m_data_type :: string

record candidate =
  c_field_id :: string
  c_score :: real
  c_metadata :: metadata

text \<open>
  What \<^verbatim>\<open>schema_collection.query\<close> returns: parallel lists with one inner list per
  query; the key \<^verbatim>\<open>distances\<close> may be missing.
\<close>

record chroma_result =
  r_ids :: "string list list"
  r_distances :: "real list list option"
  r_metadatas :: "metadata list list"

text \<open>
  The explanation strings of the mapping engine embed the distance formatted with two
  decimals; they are kept structured: \<open>No_strong_match\<close> is
  \<^verbatim>\<open>"No strong semantic match found."\<close>, \<open>Strong_match d\<close> is
  \<^verbatim>\<open>f"Strong semantic match ({d:.2f})"\<close>, \<open>Likely_match d amb\<close> is
  \<^verbatim>\<open>f"Likely match ({d:.2f}), needs review."\<close> followed, when \<open>amb = Some n\<close>, by
  \<^verbatim>\<open>f" Ambiguous: Could also be {n}."\<close>, and \<open>Weak_match d\<close> is
  \<^verbatim>\<open>f"Weak match ({d:.2f})."\<close>.
\<close>

datatype explanation =
    No_strong_match
  | Strong_match real
  | Likely_match real "string option"
  | Weak_match real

record proposal =
  p_canonical_field_id :: "string option"
  p_suggested_new_field_name :: string
  p_confidence :: string
  p_explanation :: explanation
  p_candidates :: "string list"
  p_scores :: "real list"

text \<open>
  A field dictionary.  Both discovery paths of \<^verbatim>\<open>main.py\<close> create the keys
  \<^verbatim>\<open>id\<close>, \<^verbatim>\<open>label\<close>, \<^verbatim>\<open>name\<close>, \<^verbatim>\<open>type\<close>, \<^verbatim>\<open>section\<close>, \<^verbatim>\<open>context\<close>, \<^verbatim>\<open>source\<close> and
  \<^verbatim>\<open>page\<close> with string (or integer) values, and the records of a mapping file are such
  dictionaries after \<^verbatim>\<open>map_template_fields\<close> and \<^verbatim>\<open>update_mapping\<close>; these keys are
  plain components.  Every other key is optional: \<open>None\<close> is a missing key or a null
  value, which the code reads through \<^verbatim>\<open>.get\<close> alone.  A rectangle is
  \<^verbatim>\<open>[x1, y1, x2, y2]\<close>.
\<close>

type_synonym rect = "real \<times> real \<times> real \<times> real"

record field =
  f_id :: string
  f_label :: string
  f_name :: string
  f_type :: string
  f_section :: string
  f_context :: string
  f_placeholder :: "string option"
  f_required :: "bool option"
  f_source :: string
  f_rect :: "rect option"
  f_rect_pct :: "rect option"
  f_page :: nat
  f_page_dims :: "(real \<times> real) option"
  f_export_options :: "string list option"
  f_original_name :: "string option"
  f_mapping_status :: "string option"
  f_confidence :: "string option"
  f_mapping_source :: "string option"
  f_mapping_proposal :: "proposal option"
  f_reviewed_by :: "string option"

text \<open>The JSON object of a per-template mapping file.\<close>

record mapping_file =
  mf_template_id :: string
  mf_last_updated :: real
  mf_mappings :: "field list"

text \<open>A line of \<^verbatim>\<open>corrections.log\<close>.\<close>

record correction =
  cr_timestamp :: real
  cr_template :: string
  cr_field_label :: string
  cr_ai_guess :: string
  cr_human_correction :: string

text \<open>A line of \<^verbatim>\<open>run_history.jsonl\<close>: the dictionary given to \<^verbatim>\<open>AuditLogger.log_run\<close>.\<close>

record run_data =
  rd_run_id :: string
  rd_template_id :: string
  rd_operator_id :: string
  rd_timestamp :: real
  rd_mapping_snapshot_id :: string
  rd_mapping_snapshot :: "field list"
  rd_input_payload_keys :: "string list"
  rd_filled_pdf_path :: string

text \<open>
  What \<^verbatim>\<open>UniversalDocumentFiller\<close> hands to the PDF toolkit for one output document:
  the native field values and the text drawn on the overlay canvases.
\<close>

record draw_text =
  d_clip :: rect
  d_font_size :: real
  d_x :: real
  d_y :: real
  d_text :: string

record filled_doc =
  fd_acroform_data :: "(string \<times> string) list"
  fd_need_appearances :: bool
  fd_overlay :: "(nat \<times> draw_text list) list"

text \<open>
  The files the program reads and writes, by path below the program's directory, with
  the modification time where the code reads it; of a template, the modification time and
  the number of pages.  File operations are taken to succeed.
\<close>

record pdf_file =
  pdf_mtime :: real
  pdf_pages :: nat

record world =
  template_files :: "string \<rightharpoonup> pdf_file"
  mapping_files :: "string \<rightharpoonup> real \<times> mapping_file"
  corrections_log :: "correction list"
  run_history :: "run_data list"
  snapshot_files :: "string \<rightharpoonup> field list"
  filled_files :: "string \<rightharpoonup> filled_doc"

text \<open>
  A data record: the dictionary from canonical field ids to values, in key order.  Values
  are strings (as a CSV row or a form post delivers them), so \<^verbatim>\<open>str(val)\<close> is \<^verbatim>\<open>val\<close>.
\<close>

type_synonym data_record = "(string \<times> string) list"

definition record_get :: "data_record \<Rightarrow> string \<Rightarrow> string \<Rightarrow> string" where
  "record_get record key dflt = (case map_of record key of Some v \<Rightarrow> v | None \<Rightarrow> dflt)"

section \<open>\<^verbatim>\<open>rag_service.py\<close>: the similarity search with its synonym fast path\<close>

text \<open>
  The service object: \<^verbatim>\<open>is_ready\<close> is set by the constructor, and \<open>schema_query\<close> is
  \<^verbatim>\<open>schema_collection.query(query_texts=.., n_results=..)\<close> of the vector store, which
  returns or raises.
\<close>

record rag_service =
  is_ready :: bool
  schema_query :: "string list \<Rightarrow> nat \<Rightarrow> py_error + chroma_result"

text \<open>The dictionary literal \<^verbatim>\<open>synonym_map\<close> (its keys are pairwise different).\<close>

definition synonym_table :: "(string \<times> string) list" where
  "synonym_table =
    [(''dob'', ''date_of_birth''),
     (''date of birth'', ''date_of_birth''),
     (''birth date'', ''date_of_birth''),
     (''fname'', ''first_name''),
     (''first name'', ''first_name''),
     (''given name'', ''first_name''),
     (''lname'', ''last_name''),
     (''last name'', ''last_name''),
     (''surname'', ''last_name''),
     (''family name'', ''last_name''),
     (''email'', ''email_address''),
     (''e-mail'', ''email_address''),
     (''phone'', ''mobile_number''),
     (''mobile'', ''mobile_number''),
     (''cell'', ''mobile_number''),
     (''address'', ''residential_address''),
     (''residence'', ''residential_address''),
     (''nric'', ''national_id''),
     (''id number'', ''national_id''),
     (''passport'', ''passport_number''),
     (''nationality'', ''nationality''),
     (''citizenship'', ''nationality''),
     (''gender'', ''gender''),
     (''sex'', ''gender''),
     (''marital status'', ''marital_status''),
     (''income'', ''annual_income''),
     (''occupation'', ''occupation''),
     (''job title'', ''occupation''),
     (''employer'', ''employer_name''),
     (''company'', ''employer_name''),
     (''acc no'', ''account_number''),
     (''account no'', ''account_number''),
     (''account number'', ''account_number'')]"

definition synonym_map :: "string \<rightharpoonup> string" where
  "synonym_map = map_of synonym_table"

text \<open>
  The label the fast path looks up (\<^verbatim>\<open>label_clean\<close>): the part of the query between the
  first \<^verbatim>\<open>"Field Label:"\<close> and the next full stop, stripped and in lower case, with
  underscores turned into spaces.  The second case of \<open>label_part\<close> is the
  \<^verbatim>\<open>except\<close> branch.
\<close>

definition label_part :: "string \<Rightarrow> string" where
  "label_part text =
     (if py_in ''Field Label:'' text then
        (case py_split ''Field Label:'' text of
           _ # after # _ \<Rightarrow>
             (case py_split ''.'' after of
                first # _ \<Rightarrow> lower (strip first)
              | [] \<Rightarrow> lower text)
         | _ \<Rightarrow> lower text)
      else text)"

definition label_clean :: "string \<Rightarrow> string" where
  "label_clean text = strip (replace_char CHR ''_'' CHR '' '' (label_part text))"

text \<open>The fake "perfect match" result of a synonym hit.\<close>

definition fast_path_result :: "string \<Rightarrow> candidate list" where
  "fast_path_result canonical_id =
     [\<lparr>c_field_id = canonical_id,
       c_score = 0.05,
       c_metadata = \<lparr>m_field_id = canonical_id,
                      m_canonical_name = title (replace_char CHR ''_'' CHR '' '' canonical_id),
                      m_data_type = ''text''\<rparr>\<rparr>]"

text \<open>
  The first loop of \<^verbatim>\<open>search_canonical_field_batch\<close>, over
  \<^verbatim>\<open>enumerate(query_texts)\<close>: a synonym hit is stored in \<open>final_results\<close>, any other
  query is queued for the vector search.  An entry \<open>None\<close> of \<open>final_results\<close> is
  Python's \<^verbatim>\<open>None\<close>.
\<close>

fun sort_queries ::
  "(nat \<times> string) list \<Rightarrow> candidate list option list \<Rightarrow> nat list \<Rightarrow> string list \<Rightarrow>
   candidate list option list \<times> nat list \<times> string list" where
  "sort_queries [] final_results vector_indices vector_queries =
     (final_results, vector_indices, vector_queries)"
| "sort_queries ((idx, text) # rest) final_results vector_indices vector_queries =
     (case synonym_map (label_clean text) of
        Some canonical_id \<Rightarrow>
          sort_queries rest (final_results[idx := Some (fast_path_result canonical_id)])
            vector_indices vector_queries
      | None \<Rightarrow>
          sort_queries rest final_results (vector_indices @ [idx]) (vector_queries @ [text]))"

text \<open>Indexing that raises \<^verbatim>\<open>IndexError\<close> out of range.\<close>

definition nth_err :: "'a list \<Rightarrow> nat \<Rightarrow> py_error + 'a" where
  "nth_err xs i = (if i < length xs then Inr (xs ! i) else Inl IndexError)"

definition nth2_err :: "'a list list \<Rightarrow> nat \<Rightarrow> nat \<Rightarrow> py_error + 'a" where
  "nth2_err xss i j = (case nth_err xss i of Inl e \<Rightarrow> Inl e | Inr xs \<Rightarrow> nth_err xs j)"

text \<open>A list built element by element: the first exception ends it.\<close>

fun collect :: "(py_error + 'a) list \<Rightarrow> py_error + 'a list" where
  "collect [] = Inr []"
| "collect (Inl e # rest) = Inl e"
| "collect (Inr x # rest) = (case collect rest of Inl e \<Rightarrow> Inl e | Inr xs \<Rightarrow> Inr (x # xs))"

text \<open>The candidate \<open>j\<close> of query \<open>i\<close>, and the inner loop \<^verbatim>\<open>for j in range(..)\<close>.\<close>

definition candidate_at :: "chroma_result \<Rightarrow> nat \<Rightarrow> string list \<Rightarrow> nat \<Rightarrow> py_error + candidate" where
  "candidate_at results i ids_i j =
     (case (case r_distances results of
              Some ds \<Rightarrow> nth2_err ds i j
            | None \<Rightarrow> Inr 0) of
        Inl e \<Rightarrow> Inl e
      | Inr d \<Rightarrow>
          (case nth2_err (r_metadatas results) i j of
             Inl e \<Rightarrow> Inl e
           | Inr m \<Rightarrow> Inr \<lparr>c_field_id = ids_i ! j, c_score = d, c_metadata = m\<rparr>))"

definition candidates_of :: "chroma_result \<Rightarrow> nat \<Rightarrow> py_error + candidate list" where
  "candidates_of results i =
     (case nth_err (r_ids results) i of
        Inl e \<Rightarrow> Inl e
      | Inr ids_i \<Rightarrow> collect (map (candidate_at results i ids_i) [0..<length ids_i]))"

text \<open>
  The second loop, over \<^verbatim>\<open>enumerate(vector_indices)\<close>.  Every \<open>original_idx\<close> is an
  index of \<open>final_results\<close>, since it was taken from \<^verbatim>\<open>enumerate(query_texts)\<close>.
\<close>

fun store_vector_results ::
  "chroma_result \<Rightarrow> (nat \<times> nat) list \<Rightarrow> candidate list option list \<Rightarrow>
   py_error + candidate list option list" where
  "store_vector_results results [] final_results = Inr final_results"
| "store_vector_results results ((i, original_idx) # rest) final_results =
     (case candidates_of results i of
        Inl e \<Rightarrow> Inl e
      | Inr candidates \<Rightarrow>
          store_vector_results results rest (final_results[original_idx := Some candidates]))"

definition search_canonical_field_batch ::
  "rag_service \<Rightarrow> string list \<Rightarrow> nat \<Rightarrow> py_error + candidate list option list" where
  "search_canonical_field_batch svc query_texts n_results =
     (if \<not> is_ready svc \<or> query_texts = [] then Inr (map (\<lambda>_. Some []) query_texts)
      else
        (case sort_queries (py_enumerate query_texts)
                (replicate (length query_texts) None) [] [] of
           (final_results, vector_indices, vector_queries) \<Rightarrow>
             if vector_queries \<noteq> [] then
               (case schema_query svc vector_queries n_results of
                  Inl e \<Rightarrow> Inl e
                | Inr results \<Rightarrow>
                    if r_ids results \<noteq> [] then
                      store_vector_results results (py_enumerate vector_indices) final_results
                    else Inr final_results)
             else Inr final_results))"

section \<open>\<^verbatim>\<open>mapping_engine.py\<close>: the mapping engine\<close>

definition mappings_dir :: string where
  "mappings_dir = ''mappings''"

definition get_mapping_file_path :: "string \<Rightarrow> string" where
  "get_mapping_file_path template_id =
     (let safe_name = filter (\<lambda>c. isalpha c \<or> isdigit c \<or> c \<in> set ''_-.'') template_id
      in path_join mappings_dir (safe_name @ ''.mapping.json''))"

text \<open>\<open>None\<close> is the empty dictionary returned when the file does not exist.\<close>

definition load_saved_params :: "world \<Rightarrow> string \<Rightarrow> mapping_file option" where
  "load_saved_params w template_id =
     map_option snd (mapping_files w (get_mapping_file_path template_id))"

text \<open>
  \<open>now\<close> is the clock when the file is written: \<^verbatim>\<open>datetime.now()\<close> and the new
  modification time.
\<close>

definition save_mappings :: "real \<Rightarrow> world \<Rightarrow> string \<Rightarrow> field list \<Rightarrow> world" where
  "save_mappings now w template_id field_mappings =
     w\<lparr>mapping_files := (mapping_files w)
          (get_mapping_file_path template_id \<mapsto>
             (now, \<lparr>mf_template_id = template_id,
                    mf_last_updated = now,
                    mf_mappings = field_mappings\<rparr>))\<rparr>"

text \<open>
  The dictionary \<open>saved_map\<close>: every saved record is stored under its \<^verbatim>\<open>id\<close> and then
  under its \<^verbatim>\<open>name\<close>, a later record replacing an earlier one with the same key.
\<close>

fun index_saved :: "field list \<Rightarrow> (string \<rightharpoonup> field) \<Rightarrow> (string \<rightharpoonup> field)" where
  "index_saved [] saved_map = saved_map"
| "index_saved (m # ms) saved_map =
     index_saved ms ((saved_map(f_id m \<mapsto> m))(f_name m \<mapsto> m))"

definition saved_map_of :: "mapping_file option \<Rightarrow> (string \<rightharpoonup> field)" where
  "saved_map_of saved_data =
     (case saved_data of
        None \<Rightarrow> Map.empty
      | Some d \<Rightarrow> index_saved (mf_mappings d) Map.empty)"

definition query_text :: "field \<Rightarrow> string" where
  "query_text field =
     ''Field Label: '' @ f_label field @ ''. Context: '' @ f_context field
       @ ''. Section: '' @ f_section field
       @ ''. Placeholder: '' @ (case f_placeholder field of Some p \<Rightarrow> p | None \<Rightarrow> [])"

text \<open>
  The saved record a field reuses: the entry of \<open>saved_map\<close> under the field's id, when
  its status is \<^verbatim>\<open>approved\<close> or \<^verbatim>\<open>manual_override\<close>.
\<close>

definition existing_mapping :: "(string \<rightharpoonup> field) \<Rightarrow> field \<Rightarrow> field option" where
  "existing_mapping saved_map field =
     (case saved_map (f_id field) of
        None \<Rightarrow> None
      | Some existing \<Rightarrow>
          if f_mapping_status existing \<in> {Some ''approved'', Some ''manual_override''}
          then Some existing else None)"

text \<open>
  \<^verbatim>\<open>field.update({...})\<close> of the first loop; \<^verbatim>\<open>existing['mapping_proposal']\<close> raises
  \<^verbatim>\<open>KeyError\<close> when the saved record has no proposal.
\<close>

definition reuse_existing :: "field \<Rightarrow> field \<Rightarrow> py_error + field" where
  "reuse_existing field existing =
     (case f_mapping_proposal existing of
        None \<Rightarrow> Inl KeyError
      | Some mp \<Rightarrow>
          Inr (field\<lparr>f_mapping_proposal := Some mp,
                     f_name := f_name existing,
                     f_mapping_status := f_mapping_status existing,
                     f_mapping_source :=
                       Some (case f_mapping_source existing of Some s \<Rightarrow> s | None \<Rightarrow> ''historical''),
                     f_reviewed_by := f_reviewed_by existing,
                     f_confidence :=
                       Some (case f_confidence existing of Some c \<Rightarrow> c | None \<Rightarrow> ''High'')\<rparr>))"

text \<open>
  The first loop of \<^verbatim>\<open>map_template_fields\<close>, over \<^verbatim>\<open>enumerate(template_fields)\<close>: a
  field with a reusable saved record is updated in place, any other field is queued with
  its query.
\<close>

fun first_loop ::
  "(string \<rightharpoonup> field) \<Rightarrow> (nat \<times> field) list \<Rightarrow> field list \<Rightarrow> nat list \<Rightarrow> string list \<Rightarrow>
   py_error + field list \<times> nat list \<times> string list" where
  "first_loop saved_map [] template_fields to_process_indices queries =
     Inr (template_fields, to_process_indices, queries)"
| "first_loop saved_map ((i, field) # rest) template_fields to_process_indices queries =
     (case existing_mapping saved_map field of
        Some existing \<Rightarrow>
          (case reuse_existing field existing of
             Inl e \<Rightarrow> Inl e
           | Inr field' \<Rightarrow>
               first_loop saved_map rest (template_fields[i := field'])
                 to_process_indices queries)
      | None \<Rightarrow>
          first_loop saved_map rest template_fields
            (to_process_indices @ [i]) (queries @ [query_text field]))"

text \<open>
  The tier of a candidate list: \<open>(best_match, confidence, source, mapping_status,
  explanation)\<close>.  \<^verbatim>\<open>if candidates:\<close> fails on \<^verbatim>\<open>None\<close> and on the empty list.
\<close>

definition tier ::
  "candidate list \<Rightarrow> string option \<times> string \<times> string \<times> string \<times> explanation" where
  "tier candidates =
     (case candidates of
        [] \<Rightarrow> (None, ''Low'', ''Unmapped'', ''suggest_new'', No_strong_match)
      | top_candidate # others \<Rightarrow>
          (let distance = c_score top_candidate in
           if distance < 0.40 then
             (Some (m_field_id (c_metadata top_candidate)), ''High'',
              ''auto_embedding_strong'', ''auto'', Strong_match distance)
           else if distance < 0.75 then
             (Some (m_field_id (c_metadata top_candidate)), ''Medium'',
              ''auto_embedding_weak'', ''pending_review'',
              Likely_match distance
                (case others of
                   second # _ \<Rightarrow>
                     if \<bar>c_score top_candidate - c_score second\<bar> < 0.05
                     then Some (m_canonical_name (c_metadata second)) else None
                 | [] \<Rightarrow> None))
           else
             (None, ''Low'', ''Unmapped'', ''suggest_new'', Weak_match distance)))"

text \<open>
  The body of the second loop: the field updated from its candidates.  A best match
  that is the empty string is false in \<^verbatim>\<open>best_match if best_match else field_id\<close>.
\<close>

definition apply_candidates :: "field \<Rightarrow> candidate list option \<Rightarrow> field" where
  "apply_candidates field candidates =
     (let field_id = f_id field;
          cands = (case candidates of None \<Rightarrow> [] | Some cs \<Rightarrow> cs)
      in case tier cands of
           (best_match, confidence, source, mapping_status, explanation) \<Rightarrow>
             field\<lparr>f_original_name := Some field_id,
                   f_name := (case best_match of
                                Some b \<Rightarrow> if b \<noteq> [] then b else field_id
                              | None \<Rightarrow> field_id),
                   f_mapping_status := Some mapping_status,
                   f_confidence := Some confidence,
                   f_mapping_source := Some source,
                   f_mapping_proposal :=
                     Some \<lparr>p_canonical_field_id = best_match,
                           p_suggested_new_field_name =
                             replace_char CHR '' '' CHR ''_'' (lower (f_label field)),
                           p_confidence = confidence,
                           p_explanation = explanation,
                           p_candidates = map (\<lambda>c. m_field_id (c_metadata c)) cands,
                           p_scores = map c_score cands\<rparr>\<rparr>)"

text \<open>
  The second loop, over \<^verbatim>\<open>zip(to_process_indices, batch_results)\<close>.  Every index was
  taken from \<^verbatim>\<open>enumerate(template_fields)\<close>, so the reads are in range.
\<close>

definition second_loop ::
  "(nat \<times> candidate list option) list \<Rightarrow> field list \<Rightarrow> field list" where
  "second_loop pairs template_fields =
     fold (\<lambda>(idx, candidates) fields.
             fields[idx := apply_candidates (fields ! idx) candidates])
          pairs template_fields"

definition map_template_fields ::
  "rag_service \<Rightarrow> real \<Rightarrow> world \<Rightarrow> string \<Rightarrow> field list \<Rightarrow> py_error + field list \<times> world" where
  "map_template_fields svc now w template_id template_fields =
     (let saved_map = saved_map_of (load_saved_params w template_id) in
      case first_loop saved_map (py_enumerate template_fields) template_fields [] [] of
        Inl e \<Rightarrow> Inl e
      | Inr (fields1, to_process_indices, queries) \<Rightarrow>
          (case (if queries \<noteq> [] then
                   (case search_canonical_field_batch svc queries 5 of
                      Inl e \<Rightarrow> Inl e
                    | Inr batch_results \<Rightarrow>
                        Inr (second_loop (zip to_process_indices batch_results) fields1))
                 else Inr fields1) of
             Inl e \<Rightarrow> Inl e
           | Inr fields2 \<Rightarrow> Inr (fields2, save_mappings now w template_id fields2)))"

text \<open>\<^verbatim>\<open>log_correction\<close>: one line appended to \<^verbatim>\<open>corrections.log\<close>.\<close>

definition log_correction ::
  "real \<Rightarrow> world \<Rightarrow> string \<Rightarrow> string \<Rightarrow> string \<Rightarrow> string \<Rightarrow> string \<Rightarrow> world" where
  "log_correction now w template field_id label original_ai correct_human =
     w\<lparr>corrections_log := corrections_log w @
          [\<lparr>cr_timestamp = now,
            cr_template = template,
            cr_field_label = label,
            cr_ai_guess = original_ai,
            cr_human_correction = correct_human\<rparr>]\<rparr>"

text \<open>
  The search loop of \<^verbatim>\<open>update_mapping\<close>: the index of the first record whose
  \<^verbatim>\<open>original_name\<close> (or, without one, \<^verbatim>\<open>id\<close>) is \<open>field_id\<close>.
\<close>

definition lookup_id :: "field \<Rightarrow> string" where
  "lookup_id field = (case f_original_name field of Some n \<Rightarrow> n | None \<Rightarrow> f_id field)"

fun find_field :: "string \<Rightarrow> field list \<Rightarrow> nat option" where
  "find_field field_id [] = None"
| "find_field field_id (field # rest) =
     (if lookup_id field = field_id then Some 0
      else map_option Suc (find_field field_id rest))"

text \<open>The assignments to \<open>found\<close>, which is an element of \<open>mapped_fields\<close>.\<close>

definition override :: "field \<Rightarrow> proposal \<Rightarrow> string \<Rightarrow> string \<Rightarrow> string \<Rightarrow> field" where
  "override found mp canonical_id status user =
     found\<lparr>f_name := canonical_id,
           f_mapping_proposal := Some (mp\<lparr>p_canonical_field_id := Some canonical_id\<rparr>),
           f_mapping_status := Some status,
           f_reviewed_by := Some user,
           f_mapping_source := Some ''manual_correction'',
           f_confidence := Some ''High''\<rparr>"

definition update_mapping ::
  "real \<Rightarrow> world \<Rightarrow> string \<Rightarrow> string \<Rightarrow> string \<Rightarrow> string \<Rightarrow> string \<Rightarrow> py_error + bool \<times> world" where
  "update_mapping now w template_id field_id canonical_id status user =
     (let mapped_fields =
            (case load_saved_params w template_id of None \<Rightarrow> [] | Some d \<Rightarrow> mf_mappings d)
      in case find_field field_id mapped_fields of
           None \<Rightarrow> Inr (True, save_mappings now w template_id mapped_fields)
         | Some i \<Rightarrow>
             (let found = mapped_fields ! i;
                  original_guess =
                    (case f_mapping_proposal found of
                       None \<Rightarrow> None
                     | Some mp \<Rightarrow> p_canonical_field_id mp);
                  w1 = (case original_guess of
                          None \<Rightarrow> w
                        | Some g \<Rightarrow>
                            if g \<noteq> [] \<and> g \<noteq> canonical_id
                            then log_correction now w template_id field_id
                                   (f_label found) g canonical_id
                            else w)
              in case f_mapping_proposal found of
                   None \<Rightarrow> Inl KeyError
                 | Some mp \<Rightarrow>
                     Inr (True,
                          save_mappings now w1 template_id
                            (mapped_fields[i := override found mp canonical_id status user]))))"

text \<open>The call with the default arguments \<^verbatim>\<open>status="manual_override", user="human"\<close>.\<close>

definition update_mapping_default ::
  "real \<Rightarrow> world \<Rightarrow> string \<Rightarrow> string \<Rightarrow> string \<Rightarrow> py_error + bool \<times> world" where
  "update_mapping_default now w template_id field_id canonical_id =
     update_mapping now w template_id field_id canonical_id ''manual_override'' ''human''"

section \<open>\<^verbatim>\<open>main.py\<close>: field discovery\<close>

subsection \<open>Section headers\<close>

text \<open>
  A text run as the visitor of \<^verbatim>\<open>page.extract_text\<close> receives it: the text, the
  vertical position \<^verbatim>\<open>tm[5]\<close>, the font size and the \<^verbatim>\<open>/BaseFont\<close> of the font
  dictionary (\<open>None\<close> without a font dictionary or without that key).
\<close>

record text_run =
  tr_text :: string
  tr_y :: real
  tr_font_size :: real
  tr_base_font :: "string option"

definition section_keywords :: "string list" where
  "section_keywords =
     [''section'', ''part'', ''details'', ''information'', ''declaration'',
      ''agreement'', ''authorization'', ''certification'', ''beneficiary'',
      ''instructions'', ''application'', ''applicant'', ''profile'']"

text \<open>\<^verbatim>\<open>str.isupper\<close> and \<^verbatim>\<open>str.istitle\<close>.\<close>

definition isupper :: "string \<Rightarrow> bool" where
  "isupper s = (list_ex (\<lambda>c. c \<in> set ascii_uppercase) s
                \<and> \<not> list_ex (\<lambda>c. c \<in> set ascii_lowercase) s)"

fun istitle_from :: "bool \<Rightarrow> bool \<Rightarrow> string \<Rightarrow> bool" where
  "istitle_from prev cased [] = cased"
| "istitle_from prev cased (c # cs) =
     (if c \<in> set ascii_uppercase then (if prev then False else istitle_from True True cs)
      else if c \<in> set ascii_lowercase then (if prev then istitle_from True True cs else False)
      else istitle_from False cased cs)"

definition istitle :: "string \<Rightarrow> bool" where
  "istitle s = istitle_from False False s"

text \<open>
  \<^verbatim>\<open>visitor_header\<close>: the header a text run contributes, if any.
\<close>

definition visitor_header :: "text_run \<Rightarrow> (real \<times> string) option" where
  "visitor_header run =
     (let y = tr_y run;
          clean = strip (tr_text run)
      in if clean = [] \<or> length clean < 3 then None
         else
           (let clean_lower = lower clean;
                is_header =
                  ((tr_font_size run > 10 \<and> (isupper clean \<or> istitle clean))
                   \<or> (list_ex (\<lambda>k. py_in k clean_lower) section_keywords \<and> length clean < 60)
                   \<or> ((case tr_base_font run of Some b \<Rightarrow> py_in ''Bold'' b | None \<Rightarrow> False)
                       \<and> length clean < 60))
            in if is_header
               then Some (y, strip (filter (\<lambda>c. c \<noteq> CHR '':'') clean))
               else None))"

text \<open>
  \<^verbatim>\<open>headers.sort(key=lambda x: x[0], reverse=True)\<close>: a stable sort on descending
  \<open>y\<close>; headers with the same \<open>y\<close> keep their order.
\<close>

definition sort_headers :: "(real \<times> string) list \<Rightarrow> (real \<times> string) list" where
  "sort_headers headers = sort_key (\<lambda>h. - fst h) headers"

text \<open>
  \<^verbatim>\<open>find_section_headers\<close>, from the text runs of every page: the dictionary from the
  page number (from 1) to the page's headers, top to bottom.
\<close>

definition page_headers :: "text_run list \<Rightarrow> (real \<times> string) list" where
  "page_headers runs = sort_headers (List.map_filter visitor_header runs)"

definition find_section_headers :: "text_run list list \<Rightarrow> (nat \<rightharpoonup> (real \<times> string) list)" where
  "find_section_headers pages =
     (\<lambda>page_num. if 1 \<le> page_num \<and> page_num \<le> length pages
                  then Some (page_headers (pages ! (page_num - 1))) else None)"

subsection \<open>The section of a field\<close>

text \<open>
  The loop \<^verbatim>\<open>for hy, htext in section_map[page_num]\<close> with its \<^verbatim>\<open>break\<close>.
\<close>

fun scan_headers :: "(real \<times> string) list \<Rightarrow> real \<Rightarrow> string \<Rightarrow> string" where
  "scan_headers [] field_y detected_section = detected_section"
| "scan_headers ((hy, htext) # rest) field_y detected_section =
     (if hy > field_y then scan_headers rest field_y htext else detected_section)"

definition detect_section ::
  "(nat \<rightharpoonup> (real \<times> string) list) \<Rightarrow> nat \<Rightarrow> rect option \<Rightarrow> string" where
  "detect_section section_map page_num rect =
     (let field_y = (case rect of
                       Some (x1, y1, x2, y2) \<Rightarrow> max y1 y2
                     | None \<Rightarrow> 0)
      in case section_map page_num of
           Some headers \<Rightarrow> scan_headers headers field_y ''General''
         | None \<Rightarrow> ''General'')"

subsection \<open>Checkbox export values\<close>

text \<open>
  The export options of a form field: \<open>field_type\<close> is \<^verbatim>\<open>/FT\<close>, \<open>ap_keys\<close> the keys of
  the appearance dictionary \<^verbatim>\<open>/AP /N\<close> (the empty dictionary when the field has none;
  \<open>None\<close> when the object has no keys), \<open>opt\<close> the entries of \<^verbatim>\<open>/Opt\<close>.
\<close>

definition export_options_of ::
  "string option \<Rightarrow> string list option \<Rightarrow> string list option \<Rightarrow> string list" where
  "export_options_of field_type ap_keys opt =
     (if field_type = Some ''/Btn'' then
        (case ap_keys of
           Some keys \<Rightarrow> filter (\<lambda>k. k \<noteq> ''/Off'') keys
         | None \<Rightarrow> (case opt of Some xs \<Rightarrow> xs | None \<Rightarrow> []))
      else [])"

subsection \<open>The template cache\<close>

text \<open>
  The smart cache check of \<^verbatim>\<open>analyze_template\<close>: the saved mappings, when the mapping
  file exists, is not older than the template and holds at least one mapping.  A missing
  template makes \<^verbatim>\<open>os.path.getmtime\<close> raise, which the \<^verbatim>\<open>except\<close> turns into a miss.
\<close>

definition cached_mappings :: "world \<Rightarrow> string \<Rightarrow> field list option" where
  "cached_mappings w template_path =
     (let filename = basename template_path;
          mapping_path = get_mapping_file_path filename
      in case mapping_files w mapping_path of
           None \<Rightarrow> None
         | Some (map_mtime, content) \<Rightarrow>
             (case template_files w template_path of
                None \<Rightarrow> None
              | Some pdf \<Rightarrow>
                  if map_mtime \<ge> pdf_mtime pdf then
                    (case load_saved_params w filename of
                       Some saved \<Rightarrow>
                         if length (mf_mappings saved) > 0 then Some (mf_mappings saved)
                         else None
                     | None \<Rightarrow> None)
                  else None))"

text \<open>
  \<^verbatim>\<open>analyze_template\<close>.  \<open>scan\<close> is everything after the cache check: reading the
  document, discovering its fields and running \<^verbatim>\<open>map_template_fields\<close> on them, which
  rewrites the mapping file.
\<close>

definition analyze_template ::
  "(world \<Rightarrow> string \<Rightarrow> field list \<times> world) \<Rightarrow> world \<Rightarrow> string \<Rightarrow> field list \<times> world" where
  "analyze_template scan w template_path =
     (case cached_mappings w template_path of
        Some mappings \<Rightarrow> (mappings, w)
      | None \<Rightarrow> scan w template_path)"

section \<open>\<^verbatim>\<open>main.py\<close>: filling\<close>

text \<open>\<^verbatim>\<open>d[k] = v\<close> on a dictionary kept in insertion order.\<close>

fun dict_set :: "('k \<times> 'v) list \<Rightarrow> 'k \<Rightarrow> 'v \<Rightarrow> ('k \<times> 'v) list" where
  "dict_set [] k v = [(k, v)]"
| "dict_set ((k', v') # d) k v =
     (if k' = k then (k, v) # d else (k', v') # dict_set d k v)"

definition truthy_tokens :: "string list" where
  "truthy_tokens = [''true'', ''yes'', ''1'', ''on'']"

text \<open>
  The body of the first loop of \<^verbatim>\<open>UniversalDocumentFiller.fill\<close>: a field goes to the
  batch of native updates \<open>acroform_data\<close>, to the overlay list, or nowhere.
\<close>

fun route_field ::
  "data_record \<Rightarrow> field \<Rightarrow> (string \<times> string) list \<times> field list \<Rightarrow>
   (string \<times> string) list \<times> field list" where
  "route_field record f (acroform_data, overlay_fields) =
     (let key = f_name f;
          val = record_get record key []
      in if strip val = [] then (acroform_data, overlay_fields)
         else if f_source f = ''acroform'' \<and> f_id f \<noteq> [] then
           (let internal_name = f_id f in
            if f_type f = ''checkbox'' then
              (if lower val \<in> set truthy_tokens then
                 (case (case f_export_options f of Some os \<Rightarrow> os | None \<Rightarrow> []) of
                    opt # _ \<Rightarrow> (dict_set acroform_data internal_name opt, overlay_fields)
                  | [] \<Rightarrow> (dict_set acroform_data internal_name ''/Yes'', overlay_fields))
               else (acroform_data, overlay_fields))
            else (dict_set acroform_data internal_name val, overlay_fields))
         else (acroform_data, overlay_fields @ [f]))"

definition route_fields ::
  "data_record \<Rightarrow> field list \<Rightarrow> (string \<times> string) list \<times> field list" where
  "route_fields record field_list = fold (route_field record) field_list ([], [])"

text \<open>
  \<^verbatim>\<open>_draw_text_field\<close>: the clip rectangle \<^verbatim>\<open>path.rect(x, y, w, h)\<close> (corner, width and
  height), the font size and the position given to \<^verbatim>\<open>drawString\<close>.
\<close>

definition draw_text_field :: "string \<Rightarrow> real \<Rightarrow> real \<Rightarrow> real \<Rightarrow> real \<Rightarrow> draw_text" where
  "draw_text_field text x y w h =
     (let text' = strip text;
          max_font_size = min 12 (h * 0.8);
          draw_y = y + (h / 2) - (max_font_size / 2) + 1
      in \<lparr>d_clip = (x, y, w, h),
          d_font_size = max_font_size,
          d_x = x + 2,
          d_y = draw_y,
          d_text = text'\<rparr>)"

text \<open>The body of the loop of \<^verbatim>\<open>_apply_overlay\<close>, and the loop.\<close>

definition overlay_field :: "data_record \<Rightarrow> field \<Rightarrow> draw_text option" where
  "overlay_field record field =
     (let key = f_name field;
          val = record_get record key []
      in if strip val = [] then None
         else
           (case f_rect field of
              None \<Rightarrow> None
            | Some (x1, y1, x2, y2) \<Rightarrow>
                (let x = min x1 x2;
                     y = min y1 y2;
                     w = \<bar>x2 - x1\<bar>;
                     h = \<bar>y2 - y1\<bar>
                 in Some (draw_text_field val x y w h))))"

definition apply_overlay :: "data_record \<Rightarrow> field list \<Rightarrow> draw_text list" where
  "apply_overlay record field_list = List.map_filter (overlay_field record) field_list"

text \<open>
  The overlay part of \<^verbatim>\<open>fill\<close>: the fields are grouped by \<^verbatim>\<open>page - 1\<close>, and every page
  of the document that has a group gets its overlay.
\<close>

definition overlay_pages ::
  "data_record \<Rightarrow> nat \<Rightarrow> field list \<Rightarrow> (nat \<times> draw_text list) list" where
  "overlay_pages record n_pages overlay_fields =
     List.map_filter
       (\<lambda>i. (let group = filter (\<lambda>f. int (f_page f) - 1 = int i) overlay_fields
             in if group = [] then None else Some (i, apply_overlay record group)))
       [0..<n_pages]"

text \<open>
  \<^verbatim>\<open>UniversalDocumentFiller(template_path).fill(record, output_path)\<close> for a template
  of \<open>n_pages\<close> pages: the written document and the returned field list.
\<close>

definition fill ::
  "(world \<Rightarrow> string \<Rightarrow> field list \<times> world) \<Rightarrow> world \<Rightarrow> string \<Rightarrow> nat \<Rightarrow> data_record \<Rightarrow> string \<Rightarrow>
   field list \<times> world" where
  "fill scan w template_path n_pages record output_path =
     (case analyze_template scan w template_path of
        (field_list, w1) \<Rightarrow>
          (case route_fields record field_list of
             (acroform_data, overlay_fields) \<Rightarrow>
               (field_list,
                w1\<lparr>filled_files := (filled_files w1)
                     (output_path \<mapsto>
                        \<lparr>fd_acroform_data = acroform_data,
                         fd_need_appearances = (acroform_data \<noteq> []),
                         fd_overlay = overlay_pages record n_pages overlay_fields\<rparr>)\<rparr>)))"

subsection \<open>The audit trail\<close>

definition templates_dir :: string where
  "templates_dir = ''templates''"

definition filled_dir :: string where
  "filled_dir = ''filled''"

definition filled_meta_dir :: string where
  "filled_meta_dir = ''filled_metadata''"

text \<open>\<^verbatim>\<open>AuditLogger.log_run\<close>: the run is appended to the history, the snapshot written.\<close>

definition log_run :: "world \<Rightarrow> run_data \<Rightarrow> world" where
  "log_run w run_data =
     (let w1 = w\<lparr>run_history := run_history w @ [run_data]\<rparr>;
          snapshot_id = rd_mapping_snapshot_id run_data
      in if snapshot_id \<noteq> [] then
           (let s_id = filter (\<lambda>c. isalnum c \<or> c \<in> set ''_-'') snapshot_id;
                snap_path = path_join filled_meta_dir (s_id @ ''_mapping.json'')
            in w1\<lparr>snapshot_files := (snapshot_files w1)
                     (snap_path \<mapsto> rd_mapping_snapshot run_data)\<rparr>)
         else w1)"

text \<open>\<^verbatim>\<open>s[-6:]\<close>.\<close>

definition last6 :: "string \<Rightarrow> string" where
  "last6 s = drop (length s - 6) s"

text \<open>
  \<^verbatim>\<open>fill_single_record\<close>.  \<open>run_id\<close> is the fresh \<^verbatim>\<open>uuid4\<close>, \<open>today\<close> the date stamp
  \<^verbatim>\<open>strftime("%Y%m%d")\<close> and \<open>now\<close> the clock of the audit entry.
\<close>

definition safe_name_of :: "data_record \<Rightarrow> string" where
  "safe_name_of record =
     replace_char CHR '' '' CHR ''_''
       (strip (filter (\<lambda>c. isalpha c \<or> isdigit c \<or> c = CHR '' '')
                 (record_get record ''registered_name'' ''Unknown'')))"

definition fill_single_record ::
  "(world \<Rightarrow> string \<Rightarrow> field list \<times> world) \<Rightarrow> string \<Rightarrow> string \<Rightarrow> real \<Rightarrow> world \<Rightarrow>
   data_record \<Rightarrow> string \<Rightarrow> py_error + string \<times> world" where
  "fill_single_record scan run_id today now w record template_filename =
     (let template_path = path_join templates_dir template_filename in
      case template_files w template_path of
        None \<Rightarrow> Inl FileNotFoundError
      | Some pdf \<Rightarrow>
          (let output_subdir = path_join filled_dir today;
               safe_name = safe_name_of record;
               output_filename = safe_name @ ''_'' @ last6 run_id @ ''_'' @ template_filename;
               output_path = path_join output_subdir output_filename
           in case fill scan w template_path (pdf_pages pdf) record output_path of
                (mapping_snapshot, w1) \<Rightarrow>
                  Inr (output_path,
                       log_run w1
                         \<lparr>rd_run_id = run_id,
                          rd_template_id = template_filename,
                          rd_operator_id = record_get record ''operator_id'' ''system'',
                          rd_timestamp = now,
                          rd_mapping_snapshot_id = safe_name @ ''_'' @ last6 run_id,
                          rd_mapping_snapshot = mapping_snapshot,
                          rd_input_payload_keys = map fst record,
                          rd_filled_pdf_path = output_path\<rparr>)))"

section \<open>Sample data\<close>

text \<open>
  The dictionary \<^verbatim>\<open>analyze_template\<close> appends to \<open>raw_fields\<close> for a form field, and
  the one \<^verbatim>\<open>scan_for_static_fields\<close> appends for a label of a flat document.
\<close>

definition raw_field ::
  "string \<Rightarrow> string \<Rightarrow> string option \<Rightarrow> string \<Rightarrow> string \<Rightarrow> rect option \<Rightarrow> nat \<Rightarrow> string list \<Rightarrow> field" where
  "raw_field field_name final_label field_type detected_section context rect page_num export_options =
     \<lparr>f_id = field_name,
      f_label = final_label,
      f_name = field_name,
      f_type = (if field_type = Some ''/Btn'' then ''checkbox'' else ''text''),
      f_section = detected_section,
      f_context = context,
      f_placeholder = Some [],
      f_required = Some False,
      f_source = ''acroform'',
      f_rect = rect,
      f_rect_pct = None,
      f_page = page_num,
      f_page_dims = None,
      f_export_options = Some export_options,
      f_original_name = None,
      f_mapping_status = None,
      f_confidence = None,
      f_mapping_source = None,
      f_mapping_proposal = None,
      f_reviewed_by = None\<rparr>"

definition static_field :: "string \<Rightarrow> string \<Rightarrow> string \<Rightarrow> rect \<Rightarrow> nat \<Rightarrow> field" where
  "static_field field_id clean_text context rect page_num =
     \<lparr>f_id = field_id,
      f_label = clean_text,
      f_name = field_id,
      f_type = ''text'',
      f_section = ''General'',
      f_context = context,
      f_placeholder = None,
      f_required = None,
      f_source = ''static_scan'',
      f_rect = Some rect,
      f_rect_pct = None,
      f_page = page_num,
      f_page_dims = None,
      f_export_options = None,
      f_original_name = None,
      f_mapping_status = None,
      f_confidence = None,
      f_mapping_source = None,
      f_mapping_proposal = None,
      f_reviewed_by = None\<rparr>"

text \<open>A text field labelled "Date of Birth", a checkbox and a field of a flat document.\<close>

definition dob_field :: field where
  "dob_field = raw_field ''txt_dob'' ''Date of Birth'' (Some ''/Tx'') ''General''
                 ''Section: General. Page: 1'' (Some (100, 700, 250, 715)) 1 []"


definition name_zone :: field where
  "name_zone = static_field ''static_Name_0_60'' ''Name'' ''Page 1. Label detected: 'Name' ''
                 (100, 700, 250, 715) 1"

text \<open>A world without files, and a similarity service whose vector store finds nothing.\<close>

definition no_files :: world where
  "no_files = \<lparr>template_files = Map.empty, mapping_files = Map.empty, corrections_log = [],
               run_history = [], snapshot_files = Map.empty, filled_files = Map.empty\<rparr>"

definition blind_service :: "bool \<Rightarrow> rag_service" where
  "blind_service ready =
     \<lparr>is_ready = ready,
      schema_query = (\<lambda>qs n. Inr \<lparr>r_ids = map (\<lambda>_. []) qs,
                                  r_distances = Some (map (\<lambda>_. []) qs),
                                  r_metadatas = map (\<lambda>_. []) qs\<rparr>)\<rparr>"

text \<open>
  The world after the template \<^verbatim>\<open>kyc.pdf\<close> (written at time 100) was analysed at time
  200: its mapping file holds the mapped "Date of Birth" field.
\<close>

definition dob_mapped :: field where
  "dob_mapped = apply_candidates dob_field (Some (fast_path_result ''date_of_birth''))"

definition kyc_world :: world where
  "kyc_world =
     no_files\<lparr>template_files := [''templates/kyc.pdf'' \<mapsto> \<lparr>pdf_mtime = 100, pdf_pages = 1\<rparr>],
              mapping_files := [''mappings/kyc.pdf.mapping.json'' \<mapsto>
                 (200, \<lparr>mf_template_id = ''kyc.pdf'', mf_last_updated = 200,
                        mf_mappings = [dob_mapped]\<rparr>)]\<rparr>"

text \<open>
  A field that no synonym covers, and a similarity service whose vector store answers
  every query with the canonical field \<^verbatim>\<open>tax_id\<close> at distance \<open>d\<close>.
\<close>

definition tin_field :: field where
  "tin_field = raw_field ''txt_tin'' ''Taxpayer Ref'' (Some ''/Tx'') ''General''
                 ''Section: General. Page: 1'' (Some (100, 600, 250, 615)) 1 []"

definition tax_candidate :: "real \<Rightarrow> candidate" where
  "tax_candidate d =
     \<lparr>c_field_id = ''tax_id'', c_score = d,
      c_metadata = \<lparr>m_field_id = ''tax_id'', m_canonical_name = ''Tax Id'', m_data_type = ''text''\<rparr>\<rparr>"

definition fixed_service :: "real \<Rightarrow> rag_service" where
  "fixed_service d =
     \<lparr>is_ready = True,
      schema_query = (\<lambda>qs n. Inr \<lparr>r_ids = map (\<lambda>_. [''tax_id'']) qs,
                                  r_distances = Some (map (\<lambda>_. [d]) qs),
                                  r_metadatas = map (\<lambda>_. [c_metadata (tax_candidate d)]) qs\<rparr>)\<rparr>"

text \<open>
  A template with two fields for the first name: one whose id is the canonical id
  itself, and one that the synonym table maps to it.  \<open>first_pass\<close> is their first
  analysis; in \<open>approved_world\<close> a reviewer has then approved the first field.
\<close>

definition fname_field :: field where
  "fname_field = raw_field ''first_name'' ''First Name'' (Some ''/Tx'') ''General''
                   ''Section: General. Page: 1'' (Some (100, 650, 250, 665)) 1 []"

definition alias_field :: field where
  "alias_field = raw_field ''txt_fname'' ''Fname'' (Some ''/Tx'') ''General''
                   ''Section: General. Page: 1'' (Some (100, 620, 250, 635)) 1 []"

definition first_pass :: "field list" where
  "first_pass = [apply_candidates fname_field (Some (fast_path_result ''first_name'')),
                 apply_candidates alias_field (Some (fast_path_result ''first_name''))]"

definition approved_world :: world where
  "approved_world =
     (case update_mapping 150 (save_mappings 100 no_files ''kyc.pdf'' first_pass)
             ''kyc.pdf'' ''first_name'' ''first_name'' ''approved'' ''human'' of
        Inr (ok, w) \<Rightarrow> w
      | Inl e \<Rightarrow> no_files)"

text \<open>
  A page with one header, "APPLICANT DETAILS" at height 150, and the rectangle of a tall
  field that spans the heights 100 to 200 beside it.
\<close>

definition header_page :: "text_run list" where
  "header_page = [\<lparr>tr_text = ''APPLICANT DETAILS'', tr_y = 150, tr_font_size = 12,
                    tr_base_font = None\<rparr>]"

definition tall_rect :: rect where
  "tall_rect = (50, 100, 300, 200)"

text \<open>
  Two data records that differ in the date of birth only, and the world after the first
  one was filled into \<^verbatim>\<open>kyc.pdf\<close>.
\<close>

definition jane_record :: "string \<Rightarrow> data_record" where
  "jane_record dob =
     [(''registered_name'', ''Jane Roe''), (''operator_id'', ''op42''), (''date_of_birth'', dob)]"

definition audited_world :: world where
  "audited_world =
     (case fill_single_record (\<lambda>w p. ([], w)) ''7d9f-c0ffee'' ''20240101'' 300 kyc_world
             (jane_record ''1990-01-01'') ''kyc.pdf'' of
        Inr (path, w) \<Rightarrow> w
      | Inl e \<Rightarrow> no_files)"

text \<open>
  What a call of \<^verbatim>\<open>fill_single_record\<close> leaves for the audit: the returned path (or the
  exception), the run history and the snapshot files.
\<close>

definition audit_view :: "py_error + string \<times> world \<Rightarrow> py_error + string \<times> run_data list \<times> (string \<rightharpoonup> field list)" where
  "audit_view result = map_sum id (\<lambda>(path, w). (path, run_history w, snapshot_files w)) result"

text \<open>
  A scan that discovers the given fields and writes nothing, for templates that have no
  mapping file yet.
\<close>

definition found_fields :: "field list \<Rightarrow> world \<Rightarrow> string \<Rightarrow> field list \<times> world" where
  "found_fields field_list w template_path = (field_list, w)"

section \<open>Properties\<close>

subsection \<open>Auxiliary facts\<close>

lemma set_py_enumerate: "set (py_enumerate xs) = {(i, xs ! i) | i. i < length xs}"
  by (auto simp: py_enumerate_def in_set_enumerate_eq)

lemma fst_py_enumerate: "map fst (py_enumerate xs) = [0..<length xs]"
  by (simp add: py_enumerate_def)

lemma snd_py_enumerate: "map snd (py_enumerate xs) = xs"
  by (simp add: py_enumerate_def)

lemma kyc_path: "get_mapping_file_path (basename ''templates/kyc.pdf'') = ''mappings/kyc.pdf.mapping.json''"
  by (simp add: get_mapping_file_path_def basename_def mappings_dir_def path_join_def isalpha_def isdigit_def
      ascii_uppercase_def ascii_lowercase_def ascii_digits_def)

lemma kyc_id_path: "get_mapping_file_path ''kyc.pdf'' = ''mappings/kyc.pdf.mapping.json''"
  by (simp add: get_mapping_file_path_def mappings_dir_def path_join_def isalpha_def isdigit_def
      ascii_uppercase_def ascii_lowercase_def ascii_digits_def)

lemma find_field_None:
  "find_field field_id ms = None \<longleftrightarrow> (\<forall>m \<in> set ms. lookup_id m \<noteq> field_id)"
  by (induction ms) auto

lemma find_field_Some:
  "find_field field_id ms = Some i \<Longrightarrow>
     i < length ms \<and> lookup_id (ms ! i) = field_id \<and> (\<forall>j < i. lookup_id (ms ! j) \<noteq> field_id)"
proof (induction ms arbitrary: i)
  case Nil
  then show ?case by simp
next
  case (Cons m ms)
  show ?case
  proof (cases "lookup_id m = field_id")
    case True
    with Cons.prems show ?thesis by simp
  next
    case False
    with Cons.prems obtain k where k: "find_field field_id ms = Some k" "i = Suc k"
      by auto
    from Cons.IH[OF k(1)] False k(2) show ?thesis
      by (auto simp: nth_Cons split: nat.splits)
  qed
qed

subsection \<open>The template cache\<close>

text \<open>
  Claim C5.  When the mapping file of a template exists, is at least as new as the
  template file (so in particular when it is newer) and holds at least one mapping,
  \<^verbatim>\<open>analyze_template\<close> returns the stored mapping list as it is and leaves every file
  untouched, whatever the scan and the mapping engine would have done: \<open>scan\<close> is not
  consulted.
\<close>

theorem analyze_template_cache_hit:
  assumes "mapping_files w (get_mapping_file_path (basename template_path)) = Some (map_mtime, saved)"
      and "template_files w template_path = Some pdf"
      and "pdf_mtime pdf \<le> map_mtime"
      and "mf_mappings saved \<noteq> []"
  shows "analyze_template scan w template_path = (mf_mappings saved, w)"
  using assms
  by (simp add: analyze_template_def cached_mappings_def load_saved_params_def Let_def)

theorem analyze_template_cache_hit_witness:
  "analyze_template (\<lambda>w p. ([], no_files)) kyc_world ''templates/kyc.pdf'' = ([dob_mapped], kyc_world)"
proof -
  have h1: "mapping_files kyc_world (get_mapping_file_path (basename ''templates/kyc.pdf''))
              = Some (200, \<lparr>mf_template_id = ''kyc.pdf'', mf_last_updated = 200,
                             mf_mappings = [dob_mapped]\<rparr>)"
    by (simp add: kyc_path kyc_world_def)
  have h2: "template_files kyc_world ''templates/kyc.pdf'' = Some \<lparr>pdf_mtime = 100, pdf_pages = 1\<rparr>"
    by (simp add: kyc_world_def)
  show ?thesis
    using analyze_template_cache_hit [OF h1 h2, of "\<lambda>w p. ([], no_files)"] by simp
qed

lemma dob_mapped_simps:
  "f_original_name dob_mapped = Some ''txt_dob''"
  "f_id dob_mapped = ''txt_dob''"
  "f_label dob_mapped = ''Date of Birth''"
  "f_name dob_mapped = ''date_of_birth''"
  "f_mapping_status dob_mapped = Some ''auto''"
  "f_confidence dob_mapped = Some ''High''"
  "f_mapping_source dob_mapped = Some ''auto_embedding_strong''"
  "map_option p_canonical_field_id (f_mapping_proposal dob_mapped) = Some (Some ''date_of_birth'')"
  by (simp_all add: dob_mapped_def apply_candidates_def tier_def fast_path_result_def dob_field_def
      raw_field_def Let_def)

subsection \<open>Human corrections\<close>

text \<open>
  Claim C4.  Let \<^verbatim>\<open>update_mapping\<close> find its record at position \<open>i\<close> of the stored
  list (the first record whose \<^verbatim>\<open>original_name\<close>, or \<^verbatim>\<open>id\<close>, is \<open>field_id\<close>), and
  let this record carry the proposal \<open>A\<close>, a non-empty canonical id.  A call with the
  canonical id \<open>B\<close> returns \<open>True\<close>; when \<open>A \<noteq> B\<close> the correction log grows by
  exactly the entry with \<open>ai_guess = A\<close> and \<open>human_correction = B\<close> (with the template,
  the record's label and the time), and when \<open>A = B\<close> the log is unchanged.  The
  mapping file is rewritten with the same list except for record \<open>i\<close>, whose \<open>name\<close>
  is \<open>B\<close>, whose status is the status given, whose confidence is \<open>High\<close>, whose source
  is \<open>manual_correction\<close>, whose reviewer is the user and whose proposal now names
  \<open>B\<close>.  The witness runs the call with the default arguments.
\<close>

theorem update_mapping_logs_correction:
  assumes "load_saved_params w template_id = Some saved"
      and "find_field field_id (mf_mappings saved) = Some i"
      and "f_mapping_proposal (mf_mappings saved ! i) = Some mp"
      and "p_canonical_field_id mp = Some A"
      and "A \<noteq> []"
  shows "\<exists>w' ms'.
           update_mapping now w template_id field_id B status user = Inr (True, w')
         \<and> corrections_log w' =
             (if A \<noteq> B
              then corrections_log w @
                     [\<lparr>cr_timestamp = now, cr_template = template_id,
                       cr_field_label = f_label (mf_mappings saved ! i),
                       cr_ai_guess = A, cr_human_correction = B\<rparr>]
              else corrections_log w)
         \<and> load_saved_params w' template_id
             = Some \<lparr>mf_template_id = template_id, mf_last_updated = now, mf_mappings = ms'\<rparr>
         \<and> length ms' = length (mf_mappings saved)
         \<and> (\<forall>j < length ms'. j \<noteq> i \<longrightarrow> ms' ! j = mf_mappings saved ! j)
         \<and> f_name (ms' ! i) = B
         \<and> f_mapping_status (ms' ! i) = Some status
         \<and> f_confidence (ms' ! i) = Some ''High''
         \<and> f_mapping_source (ms' ! i) = Some ''manual_correction''
         \<and> f_reviewed_by (ms' ! i) = Some user
         \<and> map_option p_canonical_field_id (f_mapping_proposal (ms' ! i)) = Some (Some B)"
proof -
  let ?ms = "mf_mappings saved"
  let ?w1 = "if A \<noteq> B
             then log_correction now w template_id field_id (f_label (?ms ! i)) A B else w"
  let ?ms' = "?ms[i := override (?ms ! i) mp B status user]"
  from find_field_Some[OF assms(2)] have i: "i < length ?ms" by simp
  have run: "update_mapping now w template_id field_id B status user
               = Inr (True, save_mappings now ?w1 template_id ?ms')"
    using assms by (simp add: update_mapping_def Let_def)
  have log: "corrections_log (save_mappings now ?w1 template_id ?ms') =
               (if A \<noteq> B
                then corrections_log w @
                       [\<lparr>cr_timestamp = now, cr_template = template_id,
                         cr_field_label = f_label (?ms ! i),
                         cr_ai_guess = A, cr_human_correction = B\<rparr>]
                else corrections_log w)"
    by (simp add: save_mappings_def log_correction_def)
  have saved_file: "load_saved_params (save_mappings now ?w1 template_id ?ms') template_id
                = Some \<lparr>mf_template_id = template_id, mf_last_updated = now, mf_mappings = ?ms'\<rparr>"
    by (simp add: save_mappings_def load_saved_params_def)
  have rec: "f_name (?ms' ! i) = B"
            "f_mapping_status (?ms' ! i) = Some status"
            "f_confidence (?ms' ! i) = Some ''High''"
            "f_mapping_source (?ms' ! i) = Some ''manual_correction''"
            "f_reviewed_by (?ms' ! i) = Some user"
            "map_option p_canonical_field_id (f_mapping_proposal (?ms' ! i)) = Some (Some B)"
    using i by (simp_all add: override_def)
  have others: "\<forall>j < length ?ms'. j \<noteq> i \<longrightarrow> ?ms' ! j = ?ms ! j"
    by simp
  have len: "length ?ms' = length ?ms" by simp
  from run log saved_file len others rec show ?thesis by blast
qed

theorem update_mapping_logs_correction_witness:
  "\<exists>w' ms'.
       update_mapping_default 300 kyc_world ''kyc.pdf'' ''txt_dob'' ''passport_number'' = Inr (True, w')
     \<and> corrections_log w' =
         [\<lparr>cr_timestamp = 300, cr_template = ''kyc.pdf'', cr_field_label = ''Date of Birth'',
           cr_ai_guess = ''date_of_birth'', cr_human_correction = ''passport_number''\<rparr>]
     \<and> load_saved_params w' ''kyc.pdf''
         = Some \<lparr>mf_template_id = ''kyc.pdf'', mf_last_updated = 300, mf_mappings = ms'\<rparr>
     \<and> f_name (ms' ! 0) = ''passport_number''
     \<and> f_mapping_status (ms' ! 0) = Some ''manual_override''
     \<and> f_confidence (ms' ! 0) = Some ''High''
     \<and> f_mapping_source (ms' ! 0) = Some ''manual_correction''"
proof -
  have h1: "load_saved_params kyc_world ''kyc.pdf''
              = Some \<lparr>mf_template_id = ''kyc.pdf'', mf_last_updated = 200, mf_mappings = [dob_mapped]\<rparr>"
    by (simp add: load_saved_params_def kyc_id_path kyc_world_def)
  have h2: "find_field ''txt_dob'' (mf_mappings \<lparr>mf_template_id = ''kyc.pdf'', mf_last_updated = 200,
              mf_mappings = [dob_mapped]\<rparr>) = Some 0"
    by (simp add: lookup_id_def dob_mapped_simps)
  obtain mp where h3: "f_mapping_proposal (mf_mappings \<lparr>mf_template_id = ''kyc.pdf'',
              mf_last_updated = 200, mf_mappings = [dob_mapped]\<rparr> ! 0) = Some mp"
    and h4: "p_canonical_field_id mp = Some ''date_of_birth''"
    using dob_mapped_simps(8) by auto
  have h5: "''date_of_birth'' \<noteq> []" by simp
  have h6: "corrections_log kyc_world = []"
    by (simp add: kyc_world_def no_files_def)
  from update_mapping_logs_correction [OF h1 h2 h3 h4 h5, of 300 "''passport_number''"
      "''manual_override''" "''human''"]
  show ?thesis
    by (simp add: update_mapping_default_def h6 dob_mapped_simps) blast
qed

text \<open>
  Claim C10.  A call of \<^verbatim>\<open>update_mapping\<close> whose \<open>field_id\<close> matches no stored record
  (also when no mapping file exists: the stored list is then empty) returns \<open>True\<close>
  and no error; it rewrites the mapping file of the template with the same mapping list,
  the time of the call as \<open>last_updated\<close> and as modification time, and changes neither
  another mapping file nor the correction log.
\<close>

theorem update_mapping_unknown_field:
  assumes "ms = (case load_saved_params w template_id of None \<Rightarrow> [] | Some d \<Rightarrow> mf_mappings d)"
      and "\<forall>m \<in> set ms. lookup_id m \<noteq> field_id"
  shows "\<exists>w'. update_mapping now w template_id field_id canonical_id status user = Inr (True, w')
            \<and> mapping_files w' (get_mapping_file_path template_id)
                = Some (now, \<lparr>mf_template_id = template_id, mf_last_updated = now, mf_mappings = ms\<rparr>)
            \<and> (\<forall>path. path \<noteq> get_mapping_file_path template_id
                   \<longrightarrow> mapping_files w' path = mapping_files w path)
            \<and> corrections_log w' = corrections_log w"
proof -
  from assms have "find_field field_id ms = None"
    by (simp add: find_field_None)
  with assms(1) show ?thesis
    by (simp add: update_mapping_def save_mappings_def Let_def)
qed

theorem update_mapping_unknown_field_witness:
  "\<exists>w'. update_mapping 300 kyc_world ''kyc.pdf'' ''no_such_field'' ''first_name''
            ''manual_override'' ''human'' = Inr (True, w')
       \<and> mapping_files w' ''mappings/kyc.pdf.mapping.json''
            = Some (300, \<lparr>mf_template_id = ''kyc.pdf'', mf_last_updated = 300,
                          mf_mappings = [dob_mapped]\<rparr>)
       \<and> corrections_log w' = []"
proof -
  have h1: "[dob_mapped] = (case load_saved_params kyc_world ''kyc.pdf'' of
                              None \<Rightarrow> [] | Some d \<Rightarrow> mf_mappings d)"
    by (simp add: load_saved_params_def kyc_id_path kyc_world_def)
  have h2: "\<forall>m \<in> set [dob_mapped]. lookup_id m \<noteq> ''no_such_field''"
    by (simp add: lookup_id_def dob_mapped_simps)
  have h3: "corrections_log kyc_world = []"
    by (simp add: kyc_world_def no_files_def)
  from update_mapping_unknown_field [OF h1 h2, of 300 "''first_name''" "''manual_override''" "''human''"]
  obtain w' where
    "update_mapping 300 kyc_world ''kyc.pdf'' ''no_such_field'' ''first_name''
       ''manual_override'' ''human'' = Inr (True, w')"
    "mapping_files w' (get_mapping_file_path ''kyc.pdf'')
       = Some (300, \<lparr>mf_template_id = ''kyc.pdf'', mf_last_updated = 300, mf_mappings = [dob_mapped]\<rparr>)"
    "corrections_log w' = corrections_log kyc_world"
    by blast
  with h3 show ?thesis
    by (auto simp: kyc_id_path)
qed

subsection \<open>The two loops of the similarity search\<close>

lemma sort_queries_result:
  assumes "sort_queries ps fr vi vq = (fr', vi', vq')"
  shows "length fr' = length fr
       \<and> vi' = vi @ map fst (filter (\<lambda>p. synonym_map (label_clean (snd p)) = None) ps)
       \<and> vq' = vq @ map snd (filter (\<lambda>p. synonym_map (label_clean (snd p)) = None) ps)"
  using assms
proof (induction ps arbitrary: fr vi vq)
  case Nil
  then show ?case by simp
next
  case (Cons p ps)
  obtain j t where p: "p = (j, t)" by (cases p)
  show ?case
  proof (cases "synonym_map (label_clean t)")
    case None
    with Cons.prems p have "sort_queries ps fr (vi @ [j]) (vq @ [t]) = (fr', vi', vq')" by simp
    from Cons.IH[OF this] None p show ?thesis by simp
  next
    case (Some c)
    with Cons.prems p have "sort_queries ps (fr[j := Some (fast_path_result c)]) vi vq = (fr', vi', vq')"
      by simp
    from Cons.IH[OF this] Some p show ?thesis by simp
  qed
qed

lemma sort_queries_other:
  "sort_queries ps fr vi vq = (fr', vi', vq') \<Longrightarrow> idx \<notin> fst ` set ps \<Longrightarrow> fr' ! idx = fr ! idx"
  by (induction ps arbitrary: fr vi vq) (auto split: option.splits)

lemma sort_queries_hit:
  assumes "sort_queries ps fr vi vq = (fr', vi', vq')"
      and "distinct (map fst ps)" and "(idx, text) \<in> set ps" and "idx < length fr"
      and "synonym_map (label_clean text) = Some cid"
  shows "fr' ! idx = Some (fast_path_result cid)"
  using assms
proof (induction ps arbitrary: fr vi vq)
  case Nil
  then show ?case by simp
next
  case (Cons p ps)
  obtain j t where p: "p = (j, t)" by (cases p)
  show ?case
  proof (cases "(idx, text) = p")
    case True
    with Cons.prems p
    have step: "sort_queries ps (fr[idx := Some (fast_path_result cid)]) vi vq = (fr', vi', vq')"
      by simp
    have notin: "idx \<notin> fst ` set ps"
      using Cons.prems(2) True p by (auto simp: image_iff)
    from sort_queries_other[OF step notin] Cons.prems(4) show ?thesis by simp
  next
    case False
    with Cons.prems have mem: "(idx, text) \<in> set ps" by auto
    from Cons.prems(2) have d: "distinct (map fst ps)" by simp
    show ?thesis
    proof (cases "synonym_map (label_clean t)")
      case None
      with Cons.prems(1) p have "sort_queries ps fr (vi @ [j]) (vq @ [t]) = (fr', vi', vq')"
        by simp
      from Cons.IH[OF this d mem Cons.prems(4) Cons.prems(5)] show ?thesis .
    next
      case (Some c)
      with Cons.prems(1) p
      have s: "sort_queries ps (fr[j := Some (fast_path_result c)]) vi vq = (fr', vi', vq')"
        by simp
      have "idx < length (fr[j := Some (fast_path_result c)])" using Cons.prems(4) by simp
      from Cons.IH[OF s d mem this Cons.prems(5)] show ?thesis .
    qed
  qed
qed

lemma store_vector_results_keeps:
  assumes "store_vector_results results pairs fr = Inr fr'"
  shows "length fr' = length fr \<and> (\<forall>j. j \<notin> snd ` set pairs \<longrightarrow> fr' ! j = fr ! j)"
  using assms
proof (induction pairs arbitrary: fr)
  case Nil
  then show ?case by simp
next
  case (Cons p pairs)
  obtain i oi where p: "p = (i, oi)" by (cases p)
  from Cons.prems p obtain cs where cs: "candidates_of results i = Inr cs"
    and rest: "store_vector_results results pairs (fr[oi := Some cs]) = Inr fr'"
    by (auto split: sum.splits)
  from Cons.IH[OF rest] p show ?case by auto
qed

lemma search_cases:
  assumes "search_canonical_field_batch svc qs n = Inr batch"
      and "is_ready svc" and "qs \<noteq> []"
      and "sort_queries (py_enumerate qs) (replicate (length qs) None) [] [] = (fr, vi, vq)"
  shows "batch = fr \<or> (\<exists>res. store_vector_results res (py_enumerate vi) fr = Inr batch)"
  using assms
  by (auto simp: search_canonical_field_batch_def split: if_splits sum.splits)

lemma search_length:
  assumes "search_canonical_field_batch svc qs n = Inr batch"
  shows "length batch = length qs"
proof (cases "\<not> is_ready svc \<or> qs = []")
  case True
  with assms show ?thesis by (auto simp: search_canonical_field_batch_def)
next
  case False
  obtain fr vi vq
    where sq: "sort_queries (py_enumerate qs) (replicate (length qs) None) [] [] = (fr, vi, vq)"
    by (metis prod_cases3)
  from sort_queries_result[OF sq] have len: "length fr = length qs" by simp
  from search_cases[OF assms _ _ sq] False
  have "batch = fr \<or> (\<exists>res. store_vector_results res (py_enumerate vi) fr = Inr batch)"
    by simp
  with len store_vector_results_keeps show ?thesis by metis
qed

lemma search_hit:
  assumes "search_canonical_field_batch svc qs n = Inr batch"
      and "is_ready svc" and "k < length qs"
      and "synonym_map (label_clean (qs ! k)) = Some cid"
  shows "batch ! k = Some (fast_path_result cid)"
proof -
  from assms(3) have ne: "qs \<noteq> []" by auto
  obtain fr vi vq
    where sq: "sort_queries (py_enumerate qs) (replicate (length qs) None) [] [] = (fr, vi, vq)"
    by (metis prod_cases3)
  have mem: "(k, qs ! k) \<in> set (py_enumerate qs)"
    using assms(3) by (auto simp: set_py_enumerate)
  have d: "distinct (map fst (py_enumerate qs))" by (simp add: fst_py_enumerate)
  have hit: "fr ! k = Some (fast_path_result cid)"
    by (rule sort_queries_hit[OF sq d mem _ assms(4)]) (simp add: assms(3))
  from sort_queries_result[OF sq]
  have vi: "vi = map fst (filter (\<lambda>p. synonym_map (label_clean (snd p)) = None) (py_enumerate qs))"
    by simp
  have knot: "k \<notin> set vi"
  proof
    assume "k \<in> set vi"
    with vi obtain p where "p \<in> set (py_enumerate qs)" "fst p = k"
      "synonym_map (label_clean (snd p)) = None"
      by auto
    then show False using assms(4) by (auto simp: set_py_enumerate)
  qed
  from search_cases[OF assms(1,2) ne sq] show ?thesis
  proof
    assume "batch = fr" with hit show ?thesis by simp
  next
    assume "\<exists>res. store_vector_results res (py_enumerate vi) fr = Inr batch"
    then obtain res where "store_vector_results res (py_enumerate vi) fr = Inr batch" ..
    from store_vector_results_keeps[OF this]
    have "\<forall>j. j \<notin> snd ` set (py_enumerate vi) \<longrightarrow> batch ! j = fr ! j" by simp
    moreover have "snd ` set (py_enumerate vi) = set vi"
      by (metis snd_py_enumerate set_map)
    ultimately show ?thesis using knot hit by simp
  qed
qed

lemma search_not_ready:
  "\<not> is_ready svc \<Longrightarrow> search_canonical_field_batch svc qs n = Inr (map (\<lambda>_. Some []) qs)"
  by (simp add: search_canonical_field_batch_def)

subsection \<open>The two loops of the mapping engine\<close>

lemma first_loop_result:
  assumes "first_loop sm ps tf tp qs = Inr (tf', tp', qs')"
  shows "length tf' = length tf
       \<and> tp' = tp @ map fst (filter (\<lambda>p. existing_mapping sm (snd p) = None) ps)
       \<and> qs' = qs @ map (\<lambda>p. query_text (snd p)) (filter (\<lambda>p. existing_mapping sm (snd p) = None) ps)"
  using assms
proof (induction ps arbitrary: tf tp qs)
  case Nil
  then show ?case by simp
next
  case (Cons p ps)
  obtain j f where p: "p = (j, f)" by (cases p)
  show ?case
  proof (cases "existing_mapping sm f")
    case None
    with Cons.prems p
    have "first_loop sm ps tf (tp @ [j]) (qs @ [query_text f]) = Inr (tf', tp', qs')" by simp
    from Cons.IH[OF this] None p show ?thesis by simp
  next
    case (Some e)
    with Cons.prems p obtain f' where "reuse_existing f e = Inr f'"
      and "first_loop sm ps (tf[j := f']) tp qs = Inr (tf', tp', qs')"
      by (auto split: sum.splits)
    from Cons.IH[OF this(2)] Some p show ?thesis by simp
  qed
qed

lemma first_loop_other:
  assumes "first_loop sm ps tf tp qs = Inr (tf', tp', qs')"
      and "\<forall>p \<in> set ps. fst p = j \<longrightarrow> existing_mapping sm (snd p) = None"
  shows "tf' ! j = tf ! j"
  using assms
proof (induction ps arbitrary: tf tp qs)
  case Nil
  then show ?case by simp
next
  case (Cons p ps)
  obtain k f where p: "p = (k, f)" by (cases p)
  from Cons.prems(2) have rest: "\<forall>p \<in> set ps. fst p = j \<longrightarrow> existing_mapping sm (snd p) = None"
    by simp
  show ?case
  proof (cases "existing_mapping sm f")
    case None
    with Cons.prems p
    have "first_loop sm ps tf (tp @ [k]) (qs @ [query_text f]) = Inr (tf', tp', qs')" by simp
    from Cons.IH[OF this rest] show ?thesis .
  next
    case (Some e)
    with Cons.prems p obtain f' where "reuse_existing f e = Inr f'"
      and step: "first_loop sm ps (tf[k := f']) tp qs = Inr (tf', tp', qs')"
      by (auto split: sum.splits)
    from Some Cons.prems(2) p have "k \<noteq> j" by auto
    with Cons.IH[OF step rest] show ?thesis by simp
  qed
qed

lemma first_loop_reused:
  assumes "first_loop sm ps tf tp qs = Inr (tf', tp', qs')"
      and "distinct (map fst ps)" and "(j, f) \<in> set ps" and "j < length tf"
      and "existing_mapping sm f = Some e"
  shows "reuse_existing f e = Inr (tf' ! j)"
  using assms
proof (induction ps arbitrary: tf tp qs)
  case Nil
  then show ?case by simp
next
  case (Cons p ps)
  obtain k g where p: "p = (k, g)" by (cases p)
  from Cons.prems(2) have d: "distinct (map fst ps)" by simp
  show ?case
  proof (cases "(j, f) = p")
    case True
    with Cons.prems p obtain f' where f': "reuse_existing f e = Inr f'"
      and step: "first_loop sm ps (tf[j := f']) tp qs = Inr (tf', tp', qs')"
      by (auto split: sum.splits)
    have "\<forall>q \<in> set ps. fst q \<noteq> j"
      using Cons.prems(2) True p by (auto simp: image_iff)
    then have "\<forall>q \<in> set ps. fst q = j \<longrightarrow> existing_mapping sm (snd q) = None" by simp
    from first_loop_other[OF step this] f' Cons.prems(4) show ?thesis by simp
  next
    case False
    with Cons.prems have mem: "(j, f) \<in> set ps" by auto
    show ?thesis
    proof (cases "existing_mapping sm g")
      case None
      with Cons.prems(1) p
      have "first_loop sm ps tf (tp @ [k]) (qs @ [query_text g]) = Inr (tf', tp', qs')" by simp
      from Cons.IH[OF this d mem Cons.prems(4) Cons.prems(5)] show ?thesis .
    next
      case (Some e')
      with Cons.prems(1) p obtain g' where
        step: "first_loop sm ps (tf[k := g']) tp qs = Inr (tf', tp', qs')"
        by (auto split: sum.splits)
      have "j < length (tf[k := g'])" using Cons.prems(4) by simp
      from Cons.IH[OF step d mem this Cons.prems(5)] show ?thesis .
    qed
  qed
qed

lemma second_loop_length: "length (second_loop pairs tf) = length tf"
  unfolding second_loop_def
  by (induction pairs arbitrary: tf) (auto split: prod.splits)

lemma second_loop_nth:
  assumes "distinct (map fst pairs)" and "j < length tf"
  shows "second_loop pairs tf ! j =
           (case map_of pairs j of None \<Rightarrow> tf ! j | Some c \<Rightarrow> apply_candidates (tf ! j) c)"
  using assms
proof (induction pairs arbitrary: tf)
  case Nil
  then show ?case by (simp add: second_loop_def)
next
  case (Cons p pairs)
  obtain i c where p: "p = (i, c)" by (cases p)
  let ?tf1 = "tf[i := apply_candidates (tf ! i) c]"
  have unfold: "second_loop (p # pairs) tf = second_loop pairs ?tf1"
    by (simp add: second_loop_def p)
  from Cons.prems have d: "distinct (map fst pairs)" and j: "j < length ?tf1" by simp_all
  note IH = Cons.IH[OF d j]
  show ?case
  proof (cases "j = i")
    case True
    with Cons.prems(1) p have "i \<notin> fst ` set pairs" by (auto simp: image_iff)
    then have "map_of pairs i = None" by (simp add: map_of_eq_None_iff)
    with IH True p Cons.prems(2) unfold show ?thesis by simp
  next
    case False
    with IH p unfold show ?thesis by (simp split: option.splits)
  qed
qed

subsection \<open>\<^verbatim>\<open>map_template_fields\<close>, field by field\<close>

text \<open>
  A field of the template is either updated from its reusable saved record, or its query
  is in the batch given to the similarity search and the field is updated from the
  candidates returned for that query.
\<close>

lemma map_template_fields_cases:
  assumes "map_template_fields svc now w template_id tfs = Inr (res, w')"
  obtains fields1 tp qs where
    "first_loop (saved_map_of (load_saved_params w template_id)) (py_enumerate tfs) tfs [] []
       = Inr (fields1, tp, qs)"
    "w' = save_mappings now w template_id res"
    "(qs = [] \<and> res = fields1)
     \<or> (qs \<noteq> [] \<and> (\<exists>batch. search_canonical_field_batch svc qs 5 = Inr batch
                          \<and> res = second_loop (zip tp batch) fields1))"
  using assms
  by (auto simp: map_template_fields_def Let_def split: sum.splits if_splits)

lemma map_template_fields_length:
  assumes "map_template_fields svc now w template_id tfs = Inr (res, w')"
  shows "length res = length tfs"
proof -
  from assms obtain fields1 tp qs where
    fl: "first_loop (saved_map_of (load_saved_params w template_id)) (py_enumerate tfs) tfs [] []
       = Inr (fields1, tp, qs)"
    and res: "(qs = [] \<and> res = fields1)
     \<or> (qs \<noteq> [] \<and> (\<exists>batch. search_canonical_field_batch svc qs 5 = Inr batch
                          \<and> res = second_loop (zip tp batch) fields1))"
    by (rule map_template_fields_cases)
  from first_loop_result[OF fl] have "length fields1 = length tfs" by simp
  with res show ?thesis by (auto simp: second_loop_length)
qed

lemma map_template_fields_reused:
  assumes run: "map_template_fields svc now w template_id tfs = Inr (res, w')"
      and i: "i < length tfs"
      and ex: "existing_mapping (saved_map_of (load_saved_params w template_id)) (tfs ! i) = Some e"
  shows "reuse_existing (tfs ! i) e = Inr (res ! i)"
proof -
  let ?sm = "saved_map_of (load_saved_params w template_id)"
  let ?P = "\<lambda>p. existing_mapping ?sm (snd p) = None"
  from run obtain fields1 tp qs where
    fl: "first_loop ?sm (py_enumerate tfs) tfs [] [] = Inr (fields1, tp, qs)"
    and res: "(qs = [] \<and> res = fields1)
     \<or> (qs \<noteq> [] \<and> (\<exists>batch. search_canonical_field_batch svc qs 5 = Inr batch
                          \<and> res = second_loop (zip tp batch) fields1))"
    by (rule map_template_fields_cases)
  from first_loop_result[OF fl]
  have len: "length fields1 = length tfs"
    and tp: "tp = map fst (filter ?P (py_enumerate tfs))"
    by simp_all
  have d: "distinct (map fst (py_enumerate tfs))" by (simp add: fst_py_enumerate)
  have mem: "(i, tfs ! i) \<in> set (py_enumerate tfs)" using i by (auto simp: set_py_enumerate)
  from first_loop_reused[OF fl d mem i ex] have r1: "reuse_existing (tfs ! i) e = Inr (fields1 ! i)" .
  have notin: "i \<notin> set tp"
  proof
    assume "i \<in> set tp"
    with tp obtain p where "p \<in> set (py_enumerate tfs)" "fst p = i" "?P p" by auto
    with ex show False by (auto simp: set_py_enumerate)
  qed
  have dtp: "distinct tp" unfolding tp using d by (rule distinct_map_filter)
  from res show ?thesis
  proof
    assume "qs = [] \<and> res = fields1"
    with r1 show ?thesis by simp
  next
    assume "qs \<noteq> [] \<and> (\<exists>batch. search_canonical_field_batch svc qs 5 = Inr batch
                          \<and> res = second_loop (zip tp batch) fields1)"
    then obtain batch where b: "res = second_loop (zip tp batch) fields1" by blast
    have dz: "distinct (map fst (zip tp batch))"
      using dtp by (simp add: map_fst_zip_take)
    have "i \<notin> fst ` set (zip tp batch)"
      using notin by (auto dest: set_zip_leftD)
    then have "map_of (zip tp batch) i = None" by (simp add: map_of_eq_None_iff)
    with second_loop_nth[OF dz, of i fields1] i len b r1 show ?thesis by simp
  qed
qed

lemma map_template_fields_queried:
  assumes run: "map_template_fields svc now w template_id tfs = Inr (res, w')"
      and i: "i < length tfs"
      and ex: "existing_mapping (saved_map_of (load_saved_params w template_id)) (tfs ! i) = None"
  obtains qs batch k where
    "search_canonical_field_batch svc qs 5 = Inr batch"
    "k < length qs" "qs ! k = query_text (tfs ! i)"
    "res ! i = apply_candidates (tfs ! i) (batch ! k)"
proof -
  let ?sm = "saved_map_of (load_saved_params w template_id)"
  let ?P = "\<lambda>p. existing_mapping ?sm (snd p) = None"
  let ?F = "filter ?P (py_enumerate tfs)"
  from run obtain fields1 tp qs where
    fl: "first_loop ?sm (py_enumerate tfs) tfs [] [] = Inr (fields1, tp, qs)"
    and res: "(qs = [] \<and> res = fields1)
     \<or> (qs \<noteq> [] \<and> (\<exists>batch. search_canonical_field_batch svc qs 5 = Inr batch
                          \<and> res = second_loop (zip tp batch) fields1))"
    by (rule map_template_fields_cases)
  from first_loop_result[OF fl]
  have len: "length fields1 = length tfs"
    and tp: "tp = map fst ?F"
    and qs: "qs = map (\<lambda>p. query_text (snd p)) ?F"
    by simp_all
  have d: "distinct (map fst (py_enumerate tfs))" by (simp add: fst_py_enumerate)
  have dtp: "distinct tp" unfolding tp using d by (rule distinct_map_filter)
  have mem: "(i, tfs ! i) \<in> set ?F" using i ex by (auto simp: set_py_enumerate)
  then obtain k where k: "k < length ?F" "?F ! k = (i, tfs ! i)"
    unfolding in_set_conv_nth by blast
  from k tp qs have ktp: "k < length tp" "tp ! k = i" and kqs: "k < length qs" "qs ! k = query_text (tfs ! i)"
    by simp_all
  from kqs have "qs \<noteq> []" by auto
  with res obtain batch where sb: "search_canonical_field_batch svc qs 5 = Inr batch"
    and r: "res = second_loop (zip tp batch) fields1" by blast
  from search_length[OF sb] tp qs have lb: "length tp = length batch" by simp
  have dz: "distinct (map fst (zip tp batch))" using dtp lb by simp
  have "map_of (zip tp batch) (tp ! k) = Some (batch ! k)"
    using lb dtp ktp(1) by (simp add: map_of_zip_nth)
  with ktp have mo: "map_of (zip tp batch) i = Some (batch ! k)" by simp
  have same: "fields1 ! i = tfs ! i"
    by (rule first_loop_other[OF fl]) (use ex in \<open>auto simp: set_py_enumerate\<close>)
  from second_loop_nth[OF dz, of i fields1] i len mo same r
  have "res ! i = apply_candidates (tfs ! i) (batch ! k)" by simp
  with sb kqs show thesis by (rule that)
qed

subsection \<open>Sample runs\<close>

lemma tin_query_clean: "label_clean (query_text tin_field) = ''taxpayer ref''"
  by (simp add: label_clean_def label_part_def query_text_def tin_field_def raw_field_def
      py_split_def lower_def lower_char_def strip_def replace_char_def isspace_def
      whitespace_def ascii_uppercase_def ascii_lowercase_def)

lemma tin_no_synonym: "synonym_map ''taxpayer ref'' = None"
  by (simp add: synonym_map_def synonym_table_def)

lemma tin_search:
  "search_canonical_field_batch (fixed_service d) [query_text tin_field] 5 = Inr [Some [tax_candidate d]]"
  by (simp add: search_canonical_field_batch_def py_enumerate_def tin_query_clean tin_no_synonym
      fixed_service_def candidates_of_def candidate_at_def nth_err_def nth2_err_def tax_candidate_def)

lemma no_files_saved: "saved_map_of (load_saved_params no_files template_id) = Map.empty"
  by (simp add: saved_map_of_def load_saved_params_def no_files_def)

lemma tin_run:
  "map_template_fields (fixed_service d) now no_files ''kyc.pdf'' [tin_field]
     = Inr ([apply_candidates tin_field (Some [tax_candidate d])],
            save_mappings now no_files ''kyc.pdf'' [apply_candidates tin_field (Some [tax_candidate d])])"
  by (simp add: map_template_fields_def no_files_saved existing_mapping_def py_enumerate_def
      tin_search second_loop_def)

subsection \<open>Confidence tiers\<close>

text \<open>
  Claim C2.  Take a field that is not served from a saved record, so that its query is
  in the batch of the similarity search, and let the call return.  The proposal stored
  with the field lists the distances of the candidates found for that query, best
  first.  With no candidate the field has status \<open>suggest_new\<close>, no canonical id, and
  its own id as name.  With a best distance \<open>d\<close>: \<open>d < 0.40\<close> gives confidence \<open>High\<close> and
  status \<open>auto\<close>; \<open>0.40 \<le> d < 0.75\<close>, so also \<open>d = 0.40\<close>, gives confidence \<open>Medium\<close>
  and status \<open>pending_review\<close>, the best candidate being the proposal in both tiers;
  \<open>0.75 \<le> d\<close> gives status \<open>suggest_new\<close>, no canonical id, and the field's own id as
  name.  The witness is a run at the boundary \<open>d = 0.40\<close>.
\<close>

theorem similarity_tiers:
  assumes run: "map_template_fields svc now w template_id tfs = Inr (res, w')"
      and i: "i < length tfs"
      and ex: "existing_mapping (saved_map_of (load_saved_params w template_id)) (tfs ! i) = None"
  shows "\<exists>qs batch k mp.
           search_canonical_field_batch svc qs 5 = Inr batch
         \<and> k < length qs \<and> qs ! k = query_text (tfs ! i)
         \<and> f_mapping_proposal (res ! i) = Some mp
         \<and> p_scores mp = map c_score (case batch ! k of None \<Rightarrow> [] | Some cs \<Rightarrow> cs)
         \<and> (p_scores mp = [] \<longrightarrow>
               f_mapping_status (res ! i) = Some ''suggest_new''
             \<and> p_canonical_field_id mp = None
             \<and> f_name (res ! i) = f_id (tfs ! i))
         \<and> (\<forall>d ds. p_scores mp = d # ds \<longrightarrow>
               (d < 0.40 \<longrightarrow>
                  f_confidence (res ! i) = Some ''High''
                \<and> f_mapping_status (res ! i) = Some ''auto''
                \<and> p_canonical_field_id mp = Some (hd (p_candidates mp)))
             \<and> (0.40 \<le> d \<and> d < 0.75 \<longrightarrow>
                  f_confidence (res ! i) = Some ''Medium''
                \<and> f_mapping_status (res ! i) = Some ''pending_review''
                \<and> p_canonical_field_id mp = Some (hd (p_candidates mp)))
             \<and> (0.75 \<le> d \<longrightarrow>
                  f_mapping_status (res ! i) = Some ''suggest_new''
                \<and> p_canonical_field_id mp = None
                \<and> f_name (res ! i) = f_id (tfs ! i)))"
proof -
  from run i ex obtain qs batch k where
    sb: "search_canonical_field_batch svc qs 5 = Inr batch"
    and k: "k < length qs" "qs ! k = query_text (tfs ! i)"
    and r: "res ! i = apply_candidates (tfs ! i) (batch ! k)"
    by (rule map_template_fields_queried)
  define cands where "cands = (case batch ! k of None \<Rightarrow> [] | Some cs \<Rightarrow> cs)"
  obtain best conf src st expl where t: "tier cands = (best, conf, src, st, expl)"
    by (metis prod_cases5)
  define mp where "mp = \<lparr>p_canonical_field_id = best,
      p_suggested_new_field_name = replace_char CHR '' '' CHR ''_'' (lower (f_label (tfs ! i))),
      p_confidence = conf, p_explanation = expl,
      p_candidates = map (\<lambda>c. m_field_id (c_metadata c)) cands,
      p_scores = map c_score cands\<rparr>"
  have proposal_eq: "f_mapping_proposal (res ! i) = Some mp"
    and st: "f_mapping_status (res ! i) = Some st"
    and conf: "f_confidence (res ! i) = Some conf"
    and name: "f_name (res ! i) =
                 (case best of Some b \<Rightarrow> if b \<noteq> [] then b else f_id (tfs ! i)
                  | None \<Rightarrow> f_id (tfs ! i))"
    using r t by (simp_all add: apply_candidates_def cands_def mp_def Let_def)
  have scores: "p_scores mp = map c_score cands"
    and cfid: "p_canonical_field_id mp = best"
    and cs: "p_candidates mp = map (\<lambda>c. m_field_id (c_metadata c)) cands"
    by (simp_all add: mp_def)
  have empty: "p_scores mp = [] \<longrightarrow>
               f_mapping_status (res ! i) = Some ''suggest_new''
             \<and> p_canonical_field_id mp = None
             \<and> f_name (res ! i) = f_id (tfs ! i)"
    using t st name cfid scores by (cases cands) (auto simp: tier_def)
  have tiers: "\<forall>d ds. p_scores mp = d # ds \<longrightarrow>
               (d < 0.40 \<longrightarrow>
                  f_confidence (res ! i) = Some ''High''
                \<and> f_mapping_status (res ! i) = Some ''auto''
                \<and> p_canonical_field_id mp = Some (hd (p_candidates mp)))
             \<and> (0.40 \<le> d \<and> d < 0.75 \<longrightarrow>
                  f_confidence (res ! i) = Some ''Medium''
                \<and> f_mapping_status (res ! i) = Some ''pending_review''
                \<and> p_canonical_field_id mp = Some (hd (p_candidates mp)))
             \<and> (0.75 \<le> d \<longrightarrow>
                  f_mapping_status (res ! i) = Some ''suggest_new''
                \<and> p_canonical_field_id mp = None
                \<and> f_name (res ! i) = f_id (tfs ! i))"
  proof (cases cands)
    case Nil
    with scores show ?thesis by simp
  next
    case (Cons top others)
    with t st conf name cfid scores cs show ?thesis
      by (auto simp: tier_def Let_def split: if_splits)
  qed
  from sb k proposal_eq scores empty tiers show ?thesis
    unfolding cands_def by blast
qed

theorem similarity_tiers_witness:
  "\<exists>res w'.
      map_template_fields (fixed_service 0.40) 200 no_files ''kyc.pdf'' [tin_field] = Inr (res, w')
    \<and> f_confidence (res ! 0) = Some ''Medium''
    \<and> f_mapping_status (res ! 0) = Some ''pending_review''"
proof -
  let ?res = "[apply_candidates tin_field (Some [tax_candidate 0.40])]"
  have i: "0 < length [tin_field]" by simp
  have ex: "existing_mapping (saved_map_of (load_saved_params no_files ''kyc.pdf'')) ([tin_field] ! 0) = None"
    by (simp add: no_files_saved existing_mapping_def)
  from similarity_tiers [OF tin_run i ex]
  obtain mp where mp: "f_mapping_proposal (?res ! 0) = Some mp"
    and tiers: "\<forall>d ds. p_scores mp = d # ds \<longrightarrow>
             (0.40 \<le> d \<and> d < 0.75 \<longrightarrow>
                  f_confidence (?res ! 0) = Some ''Medium''
                \<and> f_mapping_status (?res ! 0) = Some ''pending_review''
                \<and> p_canonical_field_id mp = Some (hd (p_candidates mp)))"
    by blast
  from mp have sc: "p_scores mp = [0.40]"
    by (auto simp: apply_candidates_def tax_candidate_def Let_def split: prod.splits)
  have bounds: "(0.40 :: real) \<le> 0.40 \<and> (0.40 :: real) < 0.75" by simp
  from tiers sc bounds
  have "f_confidence (?res ! 0) = Some ''Medium''
      \<and> f_mapping_status (?res ! 0) = Some ''pending_review''"
    by blast
  with tin_run show ?thesis by blast
qed

subsection \<open>The synonym fast path\<close>

text \<open>
  The label the fast path cleans from the query of a field is the field's own label,
  stripped, in lower case and with spaces for underscores, whenever that label holds
  neither a full stop nor the marker \<^verbatim>\<open>Field Label:\<close>.  For other labels the fast
  path sees the part of the label before the first full stop.
\<close>

lemma split_from_at_separator:
  "split_from (p # sep) acc ((p # sep) @ s) = rev acc # split_from (p # sep) [] s"
  by simp

lemma split_from_skip:
  assumes "\<forall>i < length u. take (Suc (length sep)) (drop i (u @ v)) \<noteq> p # sep"
  shows "split_from (p # sep) acc (u @ v) = split_from (p # sep) (rev u @ acc) v"
  using assms
proof (induction u arbitrary: acc)
  case Nil
  then show ?case by simp
next
  case (Cons c u)
  from Cons.prems have here: "take (Suc (length sep)) ((c # u) @ v) \<noteq> p # sep"
    by (metis drop0 length_greater_0_conv list.discI)
  from Cons.prems have rest: "\<forall>i < length u. take (Suc (length sep)) (drop i (u @ v)) \<noteq> p # sep"
    by (metis Suc_less_eq append_Cons drop_Suc_Cons length_Cons)
  from here have neg: "\<not> (c = p \<and> take (length sep) (u @ v) = sep)" by auto
  have "split_from (p # sep) acc ((c # u) @ v) = split_from (p # sep) acc (c # (u @ v))"
    by simp
  also have "\<dots> = split_from (p # sep) (c # acc) (u @ v)"
    by (simp only: split_from.simps neg if_False)
  also have "\<dots> = split_from (p # sep) (rev u @ c # acc) v"
    by (rule Cons.IH[OF rest])
  finally show ?case by simp
qed

lemma split_from_head:
  "\<exists>w rest. split_from (p # sep) acc s = (rev acc @ w) # rest"
proof (induction s arbitrary: acc)
  case Nil
  then show ?case by simp
next
  case (Cons c s)
  show ?case
  proof (cases "c = p \<and> take (length sep) s = sep")
    case True
    then show ?thesis by simp
  next
    case False
    from Cons.IH[of "c # acc"] obtain w rest
      where "split_from (p # sep) (c # acc) s = (rev (c # acc) @ w) # rest" by blast
    with False have "split_from (p # sep) acc (c # s) = (rev acc @ (c # w)) # rest" by simp
    then show ?thesis by blast
  qed
qed

lemma split_dot_first:
  assumes "CHR ''.'' \<notin> set u"
  shows "split_from ''.'' acc (u @ CHR ''.'' # w) = (rev acc @ u) # split_from ''.'' [] w"
  using assms
  by (induction u arbitrary: acc) auto

lemma py_in_occurrence:
  assumes "i \<le> length s" and "take (length sub) (drop i s) = sub"
  shows "py_in sub s"
  using assms
proof (induction s arbitrary: i)
  case Nil
  then show ?case by simp
next
  case (Cons c s)
  show ?case
  proof (cases i)
    case 0
    with Cons.prems show ?thesis by simp
  next
    case (Suc j)
    with Cons.prems have "j \<le> length s" "take (length sub) (drop j s) = sub" by simp_all
    from Cons.IH[OF this] show ?thesis by simp
  qed
qed

lemma no_match_before_dot:
  assumes marker: "\<not> py_in (p # sep) L"
      and dot: "d \<notin> set (p # sep)"
      and lead: "p \<noteq> s0"
  shows "\<forall>i < length (s0 # L).
           take (Suc (length sep)) (drop i ((s0 # L) @ d # tail)) \<noteq> p # sep"
proof (intro allI impI notI)
  let ?u = "s0 # L"
  let ?m = "p # sep"
  fix i assume i: "i < length ?u"
    and m: "take (Suc (length sep)) (drop i (?u @ d # tail)) = ?m"
  have dr: "drop i (?u @ d # tail) = drop i ?u @ d # tail"
    using i by (simp del: append_Cons drop_Suc_Cons)
  show False
  proof (cases "i + length ?m \<le> length ?u")
    case True
    then have "length ?m \<le> length (drop i ?u)" by simp
    then have "take (length ?m) (drop i ?u @ d # tail) = take (length ?m) (drop i ?u)"
      by (simp del: drop_Suc_Cons)
    with m dr have occ: "take (length ?m) (drop i ?u) = ?m" by simp
    have "i \<noteq> 0"
    proof
      assume "i = 0"
      with occ have "take (length ?m) ?u = ?m" by simp
      then have "s0 = p" by simp
      with lead show False by simp
    qed
    then obtain j where j: "i = Suc j" by (cases i) auto
    with occ i have "j \<le> length L" "take (length ?m) (drop j L) = ?m" by simp_all
    from py_in_occurrence[OF this] marker show False by simp
  next
    case False
    define k where "k = length ?u - i"
    from False i have k: "k < length ?m" and ku: "k = length (drop i ?u)"
      by (simp_all add: k_def)
    have "(drop i ?u @ d # tail) ! k = d"
      unfolding ku by (simp only: nth_append_length)
    moreover have "take (length ?m) (drop i ?u @ d # tail) ! k = (drop i ?u @ d # tail) ! k"
      using k by (simp only: nth_take)
    ultimately have "?m ! k = d" using m dr by simp
    with k have "d \<in> set ?m" by (metis nth_mem)
    with dot show False by simp
  qed
qed

lemma strip_leading_space: "strip (CHR '' '' # s) = strip s"
  by (simp add: strip_def isspace_def whitespace_def)

lemma label_part_of_query:
  assumes dot: "CHR ''.'' \<notin> set (f_label field)"
      and marker: "\<not> py_in ''Field Label:'' (f_label field)"
  shows "label_part (query_text field) = lower (strip (f_label field))"
proof -
  let ?sep = "''Field Label:''"
  let ?L = "f_label field"
  let ?u = "CHR '' '' # ?L"
  define tail where "tail = '' Context: '' @ f_context field @ ''. Section: '' @ f_section field
       @ ''. Placeholder: '' @ (case f_placeholder field of Some p \<Rightarrow> p | None \<Rightarrow> [])"
  have q: "query_text field = ?sep @ (?u @ CHR ''.'' # tail)"
    by (simp add: query_text_def tail_def)
  have isin: "py_in ?sep (query_text field)"
    unfolding q by (rule py_in_occurrence[of 0]) simp_all
  have nomatch: "\<forall>i < length ?u. take (Suc (length ''ield Label:'')) (drop i (?u @ CHR ''.'' # tail))
                   \<noteq> ?sep"
    by (rule no_match_before_dot) (use marker in simp_all)
  have "split_from ?sep [] (?u @ CHR ''.'' # tail) = split_from ?sep (rev ?u) (CHR ''.'' # tail)"
    using split_from_skip[OF nomatch, of "[]"] by simp
  also have "\<dots> = split_from ?sep (CHR ''.'' # rev ?u) tail"
    by simp
  finally obtain w rest where
    second: "split_from ?sep [] (?u @ CHR ''.'' # tail) = (?u @ CHR ''.'' # w) # rest"
    using split_from_head[of "CHR ''F''" "''ield Label:''" "CHR ''.'' # rev ?u" tail] by auto
  have pieces: "py_split ?sep (query_text field) = [] # (?u @ CHR ''.'' # w) # rest"
    unfolding py_split_def q using split_from_at_separator[of "CHR ''F''" "''ield Label:''" "[]"] second
    by simp
  have "CHR ''.'' \<notin> set ?u" using dot by simp
  from split_dot_first[OF this, of "[]" w]
  have first: "py_split ''.'' (?u @ CHR ''.'' # w) = ?u # split_from ''.'' [] w"
    by (simp add: py_split_def)
  show ?thesis
    using isin by (simp add: label_part_def pieces first strip_leading_space del: append_Cons)
qed

lemma label_clean_of_query:
  assumes "CHR ''.'' \<notin> set (f_label field)"
      and "\<not> py_in ''Field Label:'' (f_label field)"
  shows "label_clean (query_text field)
           = strip (replace_char CHR ''_'' CHR '' '' (lower (strip (f_label field))))"
  by (simp add: label_clean_def label_part_of_query[OF assms])

lemma synonym_nonempty:
  assumes "synonym_map k = Some v"
  shows "v \<noteq> []"
proof -
  from assms have "(k, v) \<in> set synonym_table"
    unfolding synonym_map_def by (rule map_of_SomeD)
  then show ?thesis
    unfolding synonym_table_def by auto
qed

lemma dob_query_clean: "label_clean (query_text dob_field) = ''date of birth''"
  by (simp add: label_clean_def label_part_def query_text_def dob_field_def raw_field_def
      py_split_def lower_def lower_char_def strip_def replace_char_def isspace_def
      whitespace_def ascii_uppercase_def ascii_lowercase_def)

lemma dob_synonym: "synonym_map ''date of birth'' = Some ''date_of_birth''"
  by (simp add: synonym_map_def synonym_table_def)

lemma dob_search_ready:
  "search_canonical_field_batch (blind_service True) [query_text dob_field] 5
     = Inr [Some (fast_path_result ''date_of_birth'')]"
  by (simp add: search_canonical_field_batch_def py_enumerate_def dob_query_clean dob_synonym
      blind_service_def)

lemma dob_run_ready:
  "map_template_fields (blind_service True) now no_files ''kyc.pdf'' [dob_field]
     = Inr ([dob_mapped], save_mappings now no_files ''kyc.pdf'' [dob_mapped])"
  by (simp add: map_template_fields_def no_files_saved existing_mapping_def py_enumerate_def
      dob_search_ready second_loop_def dob_mapped_def)

lemma dob_run_not_ready:
  "map_template_fields (blind_service False) now no_files ''kyc.pdf'' [dob_field]
     = Inr ([apply_candidates dob_field (Some [])],
            save_mappings now no_files ''kyc.pdf'' [apply_candidates dob_field (Some [])])"
  by (simp add: map_template_fields_def no_files_saved existing_mapping_def py_enumerate_def
      search_canonical_field_batch_def blind_service_def second_loop_def)

lemma dob_unmapped_simps:
  "f_name (apply_candidates dob_field (Some [])) = ''txt_dob''"
  "f_confidence (apply_candidates dob_field (Some [])) = Some ''Low''"
  "f_mapping_status (apply_candidates dob_field (Some [])) = Some ''suggest_new''"
  by (simp_all add: apply_candidates_def tier_def dob_field_def raw_field_def Let_def)

text \<open>
  Claim C1, as the code has it.  Take a field that is not served from a saved record and
  whose label, as the fast path cleans it from the field's query (\<open>label_clean_of_query\<close>),
  is a key of the synonym table.  When the similarity service is ready and the batch call returns, the field gets
  the table's canonical id as name, confidence \<open>High\<close> and status \<open>auto\<close>, whatever the
  vector store answers.  The hit is handed on as a candidate at distance \<open>0.05\<close>, so the
  record carries \<open>mapping_source = auto_embedding_strong\<close> like a strong match of the
  vector search.
\<close>

theorem synonym_fast_path:
  assumes run: "map_template_fields svc now w template_id tfs = Inr (res, w')"
      and i: "i < length tfs"
      and ex: "existing_mapping (saved_map_of (load_saved_params w template_id)) (tfs ! i) = None"
      and ready: "is_ready svc"
      and syn: "synonym_map (label_clean (query_text (tfs ! i))) = Some canonical_id"
  shows "f_name (res ! i) = canonical_id
       \<and> f_confidence (res ! i) = Some ''High''
       \<and> f_mapping_status (res ! i) = Some ''auto''
       \<and> f_mapping_source (res ! i) = Some ''auto_embedding_strong''
       \<and> f_original_name (res ! i) = Some (f_id (tfs ! i))
       \<and> map_option p_canonical_field_id (f_mapping_proposal (res ! i)) = Some (Some canonical_id)
       \<and> map_option p_candidates (f_mapping_proposal (res ! i)) = Some [canonical_id]
       \<and> map_option p_scores (f_mapping_proposal (res ! i)) = Some [0.05]"
proof -
  from run i ex obtain qs batch k where
    sb: "search_canonical_field_batch svc qs 5 = Inr batch"
    and k: "k < length qs" "qs ! k = query_text (tfs ! i)"
    and r: "res ! i = apply_candidates (tfs ! i) (batch ! k)"
    by (rule map_template_fields_queried)
  from syn k have "synonym_map (label_clean (qs ! k)) = Some canonical_id" by simp
  from search_hit[OF sb ready k(1) this] r
  have r': "res ! i = apply_candidates (tfs ! i) (Some (fast_path_result canonical_id))" by simp
  from synonym_nonempty[OF syn] have ne: "canonical_id \<noteq> []" .
  show ?thesis
    unfolding r' using ne
    by (simp add: apply_candidates_def tier_def fast_path_result_def Let_def)
qed

theorem synonym_fast_path_witness:
  "f_name dob_mapped = ''date_of_birth''
   \<and> f_confidence dob_mapped = Some ''High''
   \<and> f_mapping_status dob_mapped = Some ''auto''
   \<and> f_mapping_source dob_mapped = Some ''auto_embedding_strong''"
proof -
  have i: "0 < length [dob_field]" by simp
  have ex: "existing_mapping (saved_map_of (load_saved_params no_files ''kyc.pdf'')) ([dob_field] ! 0) = None"
    by (simp add: no_files_saved existing_mapping_def)
  have ready: "is_ready (blind_service True)" by (simp add: blind_service_def)
  have syn: "synonym_map (label_clean (query_text ([dob_field] ! 0))) = Some ''date_of_birth''"
    by (simp add: dob_query_clean dob_synonym)
  from synonym_fast_path [OF dob_run_ready i ex ready syn] show ?thesis by simp
qed

text \<open>
  The claim as stated fails twice on the field "Date of Birth", whose cleaned label is
  the key \<^verbatim>\<open>date of birth\<close>: with a ready service the record's \<open>mapping_source\<close> is
  \<open>auto_embedding_strong\<close>, and with a service that is not ready (\<^verbatim>\<open>is_ready\<close> false)
  the search returns before the synonym table is consulted, so the field keeps its own id
  as name with confidence \<open>Low\<close> and status \<open>suggest_new\<close>.
\<close>

theorem synonym_fast_path_counterexample:
  "synonym_map (label_clean (query_text dob_field)) = Some ''date_of_birth''
   \<and> map_template_fields (blind_service True) 200 no_files ''kyc.pdf'' [dob_field]
       = Inr ([dob_mapped], save_mappings 200 no_files ''kyc.pdf'' [dob_mapped])
   \<and> f_mapping_source dob_mapped = Some ''auto_embedding_strong''
   \<and> map_template_fields (blind_service False) 200 no_files ''kyc.pdf'' [dob_field]
       = Inr ([apply_candidates dob_field (Some [])],
              save_mappings 200 no_files ''kyc.pdf'' [apply_candidates dob_field (Some [])])
   \<and> f_name (apply_candidates dob_field (Some [])) = ''txt_dob''
   \<and> f_confidence (apply_candidates dob_field (Some [])) = Some ''Low''
   \<and> f_mapping_status (apply_candidates dob_field (Some [])) = Some ''suggest_new''"
  by (simp add: dob_query_clean dob_synonym dob_run_ready dob_run_not_ready dob_mapped_simps
      dob_unmapped_simps)

subsection \<open>Saved records\<close>

text \<open>
  A field whose id leads, in \<open>saved_map\<close>, to a record with status \<open>approved\<close> or
  \<open>manual_override\<close> takes the name and the status of that record.
\<close>

lemma saved_record_reused:
  assumes "map_template_fields svc now w template_id tfs = Inr (res, w')"
      and "i < length tfs"
      and "existing_mapping (saved_map_of (load_saved_params w template_id)) (tfs ! i) = Some e"
  shows "f_name (res ! i) = f_name e \<and> f_mapping_status (res ! i) = f_mapping_status e"
proof -
  from map_template_fields_reused[OF assms]
  have "Inr (res ! i) = reuse_existing (tfs ! i) e" by simp
  then show ?thesis
    by (cases "f_mapping_proposal e") (simp_all add: reuse_existing_def)
qed

lemma fname_query_clean:
  "label_clean (query_text fname_field) = ''first name''"
  "label_clean (query_text alias_field) = ''fname''"
  by (simp_all add: label_clean_def label_part_def query_text_def fname_field_def alias_field_def
      raw_field_def py_split_def lower_def lower_char_def strip_def replace_char_def isspace_def
      whitespace_def ascii_uppercase_def ascii_lowercase_def)

lemma fname_synonym:
  "synonym_map ''first name'' = Some ''first_name''"
  "synonym_map ''fname'' = Some ''first_name''"
  by (simp_all add: synonym_map_def synonym_table_def)

lemma fname_search:
  "search_canonical_field_batch (blind_service True)
     [query_text fname_field, query_text alias_field] 5
     = Inr [Some (fast_path_result ''first_name''), Some (fast_path_result ''first_name'')]"
  by (simp add: search_canonical_field_batch_def py_enumerate_def fname_query_clean fname_synonym
      blind_service_def)

lemma first_pass_simps:
  "map f_id first_pass = [''first_name'', ''txt_fname'']"
  "map f_name first_pass = [''first_name'', ''first_name'']"
  "map f_original_name first_pass = [Some ''first_name'', Some ''txt_fname'']"
  "map f_mapping_status first_pass = [Some ''auto'', Some ''auto'']"
  by (simp_all add: first_pass_def apply_candidates_def tier_def fast_path_result_def
      fname_field_def alias_field_def raw_field_def Let_def)

lemma raw_ids:
  "f_id fname_field = ''first_name''" "f_id alias_field = ''txt_fname''"
  by (simp_all add: fname_field_def alias_field_def raw_field_def)

lemma first_run:
  "map_template_fields (blind_service True) 100 no_files ''kyc.pdf'' [fname_field, alias_field]
     = Inr (first_pass, save_mappings 100 no_files ''kyc.pdf'' first_pass)"
  by (simp add: map_template_fields_def no_files_saved existing_mapping_def py_enumerate_def
      fname_search second_loop_def first_pass_def)

lemma approval:
  "\<exists>mp. f_mapping_proposal (first_pass ! 0) = Some mp
      \<and> update_mapping 150 (save_mappings 100 no_files ''kyc.pdf'' first_pass)
          ''kyc.pdf'' ''first_name'' ''first_name'' ''approved'' ''human''
        = Inr (True, save_mappings 150 (save_mappings 100 no_files ''kyc.pdf'' first_pass) ''kyc.pdf''
                 (first_pass[0 := override (first_pass ! 0) mp ''first_name'' ''approved'' ''human'']))"
proof -
  have l: "load_saved_params (save_mappings 100 no_files ''kyc.pdf'' first_pass) ''kyc.pdf''
        = Some \<lparr>mf_template_id = ''kyc.pdf'', mf_last_updated = 100, mf_mappings = first_pass\<rparr>"
    by (simp add: load_saved_params_def save_mappings_def)
  have f: "find_field ''first_name'' first_pass = Some 0"
    using first_pass_simps(3) by (simp add: first_pass_def lookup_id_def)
  obtain mp where mp: "f_mapping_proposal (first_pass ! 0) = Some mp"
      "p_canonical_field_id mp = Some ''first_name''"
    by (simp add: first_pass_def apply_candidates_def tier_def fast_path_result_def Let_def)
  show ?thesis
    using l f mp by (simp add: update_mapping_def Let_def)
qed

lemma approved_file:
  "\<exists>mp. f_mapping_proposal (first_pass ! 0) = Some mp
      \<and> load_saved_params approved_world ''kyc.pdf''
           = Some \<lparr>mf_template_id = ''kyc.pdf'', mf_last_updated = 150,
                   mf_mappings = [override (first_pass ! 0) mp ''first_name'' ''approved'' ''human'',
                                  first_pass ! 1]\<rparr>"
proof -
  from approval obtain mp where mp: "f_mapping_proposal (first_pass ! 0) = Some mp"
    and u: "update_mapping 150 (save_mappings 100 no_files ''kyc.pdf'' first_pass)
          ''kyc.pdf'' ''first_name'' ''first_name'' ''approved'' ''human''
        = Inr (True, save_mappings 150 (save_mappings 100 no_files ''kyc.pdf'' first_pass) ''kyc.pdf''
                 (first_pass[0 := override (first_pass ! 0) mp ''first_name'' ''approved'' ''human'']))"
    by blast
  have "first_pass[0 := override (first_pass ! 0) mp ''first_name'' ''approved'' ''human'']
          = [override (first_pass ! 0) mp ''first_name'' ''approved'' ''human'', first_pass ! 1]"
    by (simp add: first_pass_def)
  with u have "load_saved_params approved_world ''kyc.pdf''
           = Some \<lparr>mf_template_id = ''kyc.pdf'', mf_last_updated = 150,
                   mf_mappings = [override (first_pass ! 0) mp ''first_name'' ''approved'' ''human'',
                                  first_pass ! 1]\<rparr>"
    by (simp add: approved_world_def load_saved_params_def save_mappings_def)
  with mp show ?thesis by blast
qed

lemma approved_saved_map:
  "existing_mapping (saved_map_of (load_saved_params approved_world ''kyc.pdf'')) fname_field = None"
  "existing_mapping (saved_map_of (load_saved_params approved_world ''kyc.pdf'')) alias_field = None"
proof -
  from approved_file obtain mp where
    l: "load_saved_params approved_world ''kyc.pdf''
           = Some \<lparr>mf_template_id = ''kyc.pdf'', mf_last_updated = 150,
                   mf_mappings = [override (first_pass ! 0) mp ''first_name'' ''approved'' ''human'',
                                  first_pass ! 1]\<rparr>"
    by blast
  have r2: "f_id (first_pass ! Suc 0) = ''txt_fname''"
    "f_name (first_pass ! Suc 0) = ''first_name''"
    "f_mapping_status (first_pass ! Suc 0) = Some ''auto''"
    "f_id (first_pass ! 0) = ''first_name''"
    by (simp_all add: first_pass_def apply_candidates_def tier_def fast_path_result_def
      fname_field_def alias_field_def raw_field_def Let_def)
  show "existing_mapping (saved_map_of (load_saved_params approved_world ''kyc.pdf'')) fname_field = None"
    by (simp add: l saved_map_of_def existing_mapping_def raw_ids r2 override_def)
  show "existing_mapping (saved_map_of (load_saved_params approved_world ''kyc.pdf'')) alias_field = None"
    by (simp add: l saved_map_of_def existing_mapping_def raw_ids r2 override_def)
qed

text \<open>
  Claim C3.  \<open>saved_map\<close> stores every saved record under its id and under its name, so
  the record of one field can be replaced by the record of a later field that was mapped
  to a name equal to the first field's id.  The template here has the field
  \<^verbatim>\<open>first_name\<close> and the field \<^verbatim>\<open>txt_fname\<close>, which the first analysis maps to
  \<^verbatim>\<open>first_name\<close> as well.  A reviewer approves the first field, and the mapping file
  holds its record with status \<open>approved\<close>.  The next mapping pass finds, under the id
  \<^verbatim>\<open>first_name\<close>, the record of \<^verbatim>\<open>txt_fname\<close> with status \<open>auto\<close>: the approved
  field is queried again and comes back with status \<open>auto\<close> and no reviewer.
\<close>

theorem preserved_mapping_shadowed:
  "map_template_fields (blind_service True) 100 no_files ''kyc.pdf'' [fname_field, alias_field]
     = Inr (first_pass, save_mappings 100 no_files ''kyc.pdf'' first_pass)
   \<and> update_mapping 150 (save_mappings 100 no_files ''kyc.pdf'' first_pass)
        ''kyc.pdf'' ''first_name'' ''first_name'' ''approved'' ''human''
     = Inr (True, approved_world)
   \<and> map_option (\<lambda>d. map (\<lambda>m. (f_id m, f_name m, f_mapping_status m)) (mf_mappings d))
        (load_saved_params approved_world ''kyc.pdf'')
     = Some [(''first_name'', ''first_name'', Some ''approved''),
             (''txt_fname'', ''first_name'', Some ''auto'')]
   \<and> map_template_fields (blind_service True) 200 approved_world ''kyc.pdf'' [fname_field, alias_field]
     = Inr (first_pass, save_mappings 200 approved_world ''kyc.pdf'' first_pass)
   \<and> map f_mapping_status first_pass = [Some ''auto'', Some ''auto'']
   \<and> map f_reviewed_by first_pass = [None, None]"
proof -
  have a: "update_mapping 150 (save_mappings 100 no_files ''kyc.pdf'' first_pass)
        ''kyc.pdf'' ''first_name'' ''first_name'' ''approved'' ''human''
     = Inr (True, approved_world)"
    using approval by (auto simp: approved_world_def)
  have b: "map_option (\<lambda>d. map (\<lambda>m. (f_id m, f_name m, f_mapping_status m)) (mf_mappings d))
        (load_saved_params approved_world ''kyc.pdf'')
     = Some [(''first_name'', ''first_name'', Some ''approved''),
             (''txt_fname'', ''first_name'', Some ''auto'')]"
    using approved_file
    by (auto simp: override_def first_pass_def apply_candidates_def tier_def fast_path_result_def
      fname_field_def alias_field_def raw_field_def Let_def)
  have c: "map_template_fields (blind_service True) 200 approved_world ''kyc.pdf'' [fname_field, alias_field]
     = Inr (first_pass, save_mappings 200 approved_world ''kyc.pdf'' first_pass)"
    by (simp add: map_template_fields_def approved_saved_map py_enumerate_def
      fname_search second_loop_def first_pass_def)
  have d: "map f_reviewed_by first_pass = [None, None]"
    by (simp add: first_pass_def apply_candidates_def tier_def fast_path_result_def
      fname_field_def alias_field_def raw_field_def Let_def)
  from first_run a b c d first_pass_simps(4) show ?thesis by simp
qed

subsection \<open>The section of a field\<close>

lemma scan_headers_sorted:
  assumes "sorted (map (\<lambda>h. - fst h) hs)"
  shows "scan_headers hs fy sec =
           (case filter (\<lambda>h. fst h > fy) hs of [] \<Rightarrow> sec | h # fs \<Rightarrow> snd (last (h # fs)))"
  using assms
proof (induction hs arbitrary: sec)
  case Nil
  then show ?case by simp
next
  case (Cons h hs)
  obtain hy ht where h: "h = (hy, ht)" by (cases h)
  from Cons.prems have s: "sorted (map (\<lambda>h. - fst h) hs)"
    and le: "\<forall>g \<in> set hs. fst g \<le> hy"
    by (auto simp: h)
  show ?case
  proof (cases "hy > fy")
    case True
    with Cons.IH[OF s, of ht] h show ?thesis
      by (simp split: list.splits)
  next
    case False
    with le have "filter (\<lambda>h. fst h > fy) hs = []"
      by (auto simp: filter_empty_conv)
    with False h show ?thesis by simp
  qed
qed

lemma last_of_descending:
  assumes "sorted (map (\<lambda>h. - fst h) fs)" and "fs \<noteq> []" and "g \<in> set fs"
  shows "fst (last fs) \<le> (fst g :: real)"
  using assms
proof (induction fs)
  case Nil
  then show ?case by simp
next
  case (Cons h fs)
  show ?case
  proof (cases "fs = []")
    case True
    with Cons.prems show ?thesis by simp
  next
    case False
    from Cons.prems(1) have s: "sorted (map (\<lambda>h. - fst h) fs)"
      and le: "\<forall>k \<in> set fs. fst k \<le> fst h" by auto
    show ?thesis
    proof (cases "g \<in> set fs")
      case True
      from Cons.IH[OF s False True] False show ?thesis by simp
    next
      case outside: False
      with Cons.prems(3) have "g = h" by simp
      moreover have "last fs \<in> set fs" using False by simp
      ultimately show ?thesis using le False by auto
    qed
  qed
qed

lemma page_headers_descending: "sorted (map (\<lambda>h. - fst h) (page_headers runs))"
  by (simp add: page_headers_def sort_headers_def)

lemma header_page_headers: "page_headers header_page = [(150, ''APPLICANT DETAILS'')]"
  by (simp add: page_headers_def sort_headers_def header_page_def visitor_header_def
      strip_def isspace_def whitespace_def isupper_def
      ascii_uppercase_def ascii_lowercase_def Let_def)

text \<open>
  Claim C7, as the code has it.  The section of a field with a rectangle is decided by
  the larger of the rectangle's two vertical coordinates, its upper edge in page
  coordinates.  Of the headers of the field's page, sorted top to bottom, the scan stops
  at the first one that is not strictly above that edge; so the section is the text of a
  header above the edge that no other header above the edge lies below, and it is
  \<open>General\<close> when no header lies above the edge.
\<close>

theorem section_from_upper_edge:
  assumes "1 \<le> page_num" and "page_num \<le> length pages"
  shows "let headers = page_headers (pages ! (page_num - 1));
             field_y = max y1 y2;
             section = detect_section (find_section_headers pages) page_num (Some (x1, y1, x2, y2))
         in ((\<forall>h \<in> set headers. fst h \<le> field_y) \<longrightarrow> section = ''General'')
          \<and> ((\<exists>h \<in> set headers. field_y < fst h) \<longrightarrow>
               (\<exists>h \<in> set headers. section = snd h \<and> field_y < fst h
                  \<and> (\<forall>g \<in> set headers. field_y < fst g \<longrightarrow> fst h \<le> fst g)))"
proof -
  define headers where "headers = page_headers (pages ! (page_num - 1))"
  define field_y where "field_y = max y1 y2"
  define above where "above = filter (\<lambda>h. fst h > field_y) headers"
  have desc: "sorted (map (\<lambda>h. - fst h) headers)"
    unfolding headers_def by (rule page_headers_descending)
  have d: "detect_section (find_section_headers pages) page_num (Some (x1, y1, x2, y2))
             = scan_headers headers field_y ''General''"
    using assms by (simp add: detect_section_def find_section_headers_def headers_def field_y_def)
  note sc = scan_headers_sorted[OF desc, of field_y "''General''", folded above_def]
  have none: "(\<forall>h \<in> set headers. fst h \<le> field_y) \<longrightarrow>
                scan_headers headers field_y ''General'' = ''General''"
  proof
    assume "\<forall>h \<in> set headers. fst h \<le> field_y"
    then have "above = []" by (auto simp: above_def filter_empty_conv)
    with sc show "scan_headers headers field_y ''General'' = ''General''" by simp
  qed
  have some: "(\<exists>h \<in> set headers. field_y < fst h) \<longrightarrow>
               (\<exists>h \<in> set headers. scan_headers headers field_y ''General'' = snd h \<and> field_y < fst h
                  \<and> (\<forall>g \<in> set headers. field_y < fst g \<longrightarrow> fst h \<le> fst g))"
  proof
    assume "\<exists>h \<in> set headers. field_y < fst h"
    then have ne: "above \<noteq> []" by (auto simp: above_def filter_empty_conv)
    then obtain a as where a: "above = a # as" by (cases above) auto
    with sc have r: "scan_headers headers field_y ''General'' = snd (last above)" by simp
    have mem: "last above \<in> set above" using ne by simp
    then have m1: "last above \<in> set headers" and m2: "field_y < fst (last above)"
      by (auto simp: above_def)
    have sa: "sorted (map (\<lambda>h. - fst h) above)"
      unfolding above_def using desc by (simp add: sorted_map sorted_wrt_filter)
    have "\<forall>g \<in> set headers. field_y < fst g \<longrightarrow> fst (last above) \<le> fst g"
    proof (intro ballI impI)
      fix g assume "g \<in> set headers" "field_y < fst g"
      then have "g \<in> set above" by (simp add: above_def)
      from last_of_descending[OF sa ne this] show "fst (last above) \<le> fst g" .
    qed
    with r m1 m2 show "\<exists>h \<in> set headers. scan_headers headers field_y ''General'' = snd h
        \<and> field_y < fst h \<and> (\<forall>g \<in> set headers. field_y < fst g \<longrightarrow> fst h \<le> fst g)"
      by blast
  qed
  from none some show ?thesis
    unfolding Let_def d headers_def[symmetric] field_y_def[symmetric] by simp
qed

theorem section_from_upper_edge_witness:
  "detect_section (find_section_headers [header_page]) 1 (Some (50, 100, 300, 140))
     = ''APPLICANT DETAILS''"
proof -
  have a: "(1::nat) \<le> 1" "(1::nat) \<le> length [header_page]" by simp_all
  from section_from_upper_edge [OF a, of 100 140 50 300]
  show ?thesis
    by (simp add: header_page_headers Let_def)
qed

text \<open>
  The claim as stated takes the lower edge.  A header at height 150 lies above the lower
  edge (100) of a field that reaches up to 200, and the section of the field is
  \<open>General\<close>, not that header.
\<close>

theorem section_from_upper_edge_counterexample:
  "page_headers header_page = [(150, ''APPLICANT DETAILS'')]
   \<and> tall_rect = (50, 100, 300, 200)
   \<and> (min 100 200 :: real) < 150
   \<and> detect_section (find_section_headers [header_page]) 1 (Some tall_rect) = ''General''"
  by (simp add: header_page_headers tall_rect_def detect_section_def find_section_headers_def)

subsection \<open>The written document\<close>

text \<open>
  What \<^verbatim>\<open>fill\<close> writes for the field list of the analysis: the batch of native
  updates and the overlays that the routing loop yields.
\<close>

lemma fill_document:
  assumes "analyze_template scan w template_path = (field_list, w1)"
  shows "fill scan w template_path n_pages r output_path =
           (field_list,
            w1\<lparr>filled_files := (filled_files w1)
                 (output_path \<mapsto>
                    \<lparr>fd_acroform_data = fst (route_fields r field_list),
                     fd_need_appearances = (fst (route_fields r field_list) \<noteq> []),
                     fd_overlay = overlay_pages r n_pages (snd (route_fields r field_list))\<rparr>)\<rparr>)"
  by (simp add: fill_def assms split: prod.splits)

lemma found_fields_analysis:
  "analyze_template (found_fields field_list) no_files template_path = (field_list, no_files)"
  by (simp add: analyze_template_def cached_mappings_def found_fields_def no_files_def Let_def)

subsection \<open>Overlay drawing\<close>

lemma john_doe: "strip (record_get [(''static_Name_0_60'', ''John Doe'')] ''static_Name_0_60'' []) = ''John Doe''"
  by (simp add: record_get_def strip_def isspace_def whitespace_def)

lemma overlay_field_geometry:
  assumes "f_rect field = Some (x1, y1, x2, y2)"
      and "strip (record_get r (f_name field) []) \<noteq> []"
  shows "overlay_field r field =
           Some \<lparr>d_clip = (min x1 x2, min y1 y2, \<bar>x2 - x1\<bar>, \<bar>y2 - y1\<bar>),
                  d_font_size = min 12 (\<bar>y2 - y1\<bar> * 0.8),
                  d_x = min x1 x2 + 2,
                  d_y = min y1 y2 + (\<bar>y2 - y1\<bar> - min 12 (\<bar>y2 - y1\<bar> * 0.8)) / 2 + 1,
                  d_text = strip (record_get r (f_name field) [])\<rparr>"
  using assms
  by (simp add: overlay_field_def draw_text_field_def Let_def diff_divide_distrib)

lemma route_field_overlay:
  "snd (route_field r g st) =
     snd st @ (if strip (record_get r (f_name g) []) \<noteq> []
                  \<and> \<not> (f_source g = ''acroform'' \<and> f_id g \<noteq> [])
               then [g] else [])"
proof -
  obtain acro ov where st: "st = (acro, ov)" by (cases st)
  show ?thesis
    unfolding st by (simp add: Let_def split: list.splits)
qed

lemma fold_route_overlay:
  "snd (fold (route_field r) gs st) =
     snd st @ filter (\<lambda>g. strip (record_get r (f_name g) []) \<noteq> []
                          \<and> \<not> (f_source g = ''acroform'' \<and> f_id g \<noteq> [])) gs"
proof (induction gs arbitrary: st)
  case Nil
  then show ?case by simp
next
  case (Cons g gs)
  have "snd (fold (route_field r) (g # gs) st) = snd (fold (route_field r) gs (route_field r g st))"
    by simp
  also have "\<dots> = snd (route_field r g st)
        @ filter (\<lambda>g. strip (record_get r (f_name g) []) \<noteq> []
                          \<and> \<not> (f_source g = ''acroform'' \<and> f_id g \<noteq> [])) gs"
    by (rule Cons.IH)
  finally show ?case
    by (simp add: route_field_overlay)
qed

lemma set_map_filter: "y \<in> set (List.map_filter g xs) \<longleftrightarrow> (\<exists>x \<in> set xs. g x = Some y)"
proof (induction xs)
  case Nil
  show ?case by simp
next
  case (Cons a xs)
  show ?case
  proof (cases "g a")
    case None
    with Cons show ?thesis by simp
  next
    case (Some z)
    with Cons show ?thesis by auto
  qed
qed

lemma in_filter: "x \<in> set xs \<Longrightarrow> P x \<Longrightarrow> x \<in> set (filter P xs)"
  by simp

lemma overlay_pages_member:
  assumes "f \<in> set ov" and "int (f_page f) - 1 = int i" and "i < n_pages"
  shows "(i, apply_overlay r (filter (\<lambda>g. int (f_page g) - 1 = int i) ov))
           \<in> set (overlay_pages r n_pages ov)"
proof -
  define group where "group = filter (\<lambda>g. int (f_page g) - 1 = int i) ov"
  from assms(3) have i: "i \<in> set [0..<n_pages]" by simp
  have "f \<in> set group"
    unfolding group_def by (rule in_filter[OF assms(1)]) (rule assms(2))
  then have ne: "group \<noteq> []" by auto
  have "(let group = filter (\<lambda>g. int (f_page g) - 1 = int i) ov
         in if group = [] then None else Some (i, apply_overlay r group))
        = Some (i, apply_overlay r group)"
    using ne unfolding group_def Let_def by (rule if_not_P)
  with i have "(i, apply_overlay r group) \<in> set (overlay_pages r n_pages ov)"
    unfolding overlay_pages_def set_map_filter by (rule bexI[rotated])
  then show ?thesis unfolding group_def .
qed

text \<open>
  Claim C8, as the code has it.  Take a field of the analysis that goes to the overlay
  (it is not a form field with an id), with a rectangle, a non-blank value in the record
  and a page of the document.  The written document has, on that page, a text drawn as
  follows, \<open>x\<close> and \<open>y\<close> being the smaller coordinates of the rectangle, \<open>w\<close> and \<open>h\<close>
  its width and height: the text is clipped to the rectangle \<open>(x, y, w, h)\<close>; the font
  size is exactly \<open>min 12 (h * 0.8)\<close>; the text starts at \<open>x + 2\<close>; and its baseline is
  at \<open>y + (h - size) / 2 + 1\<close>, one unit above the position that centres a band as high
  as the font in the rectangle.  Python floats are modelled as real numbers.
\<close>

theorem overlay_text_geometry:
  assumes "analyze_template scan w template_path = (field_list, w1)"
      and "f \<in> set field_list"
      and "f_source f \<noteq> ''acroform'' \<or> f_id f = []"
      and "f_rect f = Some (x1, y1, x2, y2)"
      and "strip (record_get r (f_name f) []) \<noteq> []"
      and "1 \<le> f_page f" and "f_page f \<le> n_pages"
  shows "\<exists>doc draws d.
           fill scan w template_path n_pages r output_path =
             (field_list, w1\<lparr>filled_files := (filled_files w1)(output_path \<mapsto> doc)\<rparr>)
         \<and> (f_page f - 1, draws) \<in> set (fd_overlay doc)
         \<and> d \<in> set draws
         \<and> d_clip d = (min x1 x2, min y1 y2, \<bar>x2 - x1\<bar>, \<bar>y2 - y1\<bar>)
         \<and> d_font_size d = min 12 (\<bar>y2 - y1\<bar> * 0.8)
         \<and> d_x d = min x1 x2 + 2
         \<and> d_y d = min y1 y2 + (\<bar>y2 - y1\<bar> - d_font_size d) / 2 + 1
         \<and> d_text d = strip (record_get r (f_name f) [])"
proof -
  let ?val = "strip (record_get r (f_name f) [])"
  let ?i = "f_page f - 1"
  let ?ov = "snd (route_fields r field_list)"
  let ?group = "filter (\<lambda>g. int (f_page g) - 1 = int ?i) ?ov"
  let ?d = "\<lparr>d_clip = (min x1 x2, min y1 y2, \<bar>x2 - x1\<bar>, \<bar>y2 - y1\<bar>),
             d_font_size = min 12 (\<bar>y2 - y1\<bar> * 0.8),
             d_x = min x1 x2 + 2,
             d_y = min y1 y2 + (\<bar>y2 - y1\<bar> - min 12 (\<bar>y2 - y1\<bar> * 0.8)) / 2 + 1,
             d_text = ?val\<rparr>"
  let ?doc = "\<lparr>fd_acroform_data = fst (route_fields r field_list),
               fd_need_appearances = (fst (route_fields r field_list) \<noteq> []),
               fd_overlay = overlay_pages r n_pages ?ov\<rparr>"
  have ov: "?ov = filter (\<lambda>g. strip (record_get r (f_name g) []) \<noteq> []
                          \<and> \<not> (f_source g = ''acroform'' \<and> f_id g \<noteq> [])) field_list"
    using fold_route_overlay[of r field_list "([], [])"] by (simp add: route_fields_def)
  from assms(3,5) have routed: "?val \<noteq> [] \<and> \<not> (f_source f = ''acroform'' \<and> f_id f \<noteq> [])"
    by blast
  have mem: "f \<in> set ?ov"
    unfolding ov by (rule in_filter[OF assms(2)]) (rule routed)
  from assms(6) have pg: "int (f_page f) - 1 = int ?i" by simp
  from assms(6,7) have lt: "?i < n_pages" by simp
  have page: "(?i, apply_overlay r ?group) \<in> set (overlay_pages r n_pages ?ov)"
    by (rule overlay_pages_member[OF mem pg lt])
  have grp: "f \<in> set ?group"
    by (rule in_filter[OF mem]) (rule pg)
  have ovf: "overlay_field r f = Some ?d"
    by (rule overlay_field_geometry[OF assms(4,5)])
  have drawn: "?d \<in> set (apply_overlay r ?group)"
    unfolding apply_overlay_def set_map_filter
    by (rule bexI[of "\<lambda>g. overlay_field r g = Some ?d" f, OF ovf grp])
  have filled: "fill scan w template_path n_pages r output_path =
          (field_list, w1\<lparr>filled_files := (filled_files w1)(output_path \<mapsto> ?doc)\<rparr>)"
    by (rule fill_document[OF assms(1)])
  have page': "(?i, apply_overlay r ?group) \<in> set (fd_overlay ?doc)"
    using page by simp
  show ?thesis
  proof (intro exI[of _ ?doc] exI[of _ "apply_overlay r ?group"] exI[of _ ?d] conjI)
    show "fill scan w template_path n_pages r output_path =
          (field_list, w1\<lparr>filled_files := (filled_files w1)(output_path \<mapsto> ?doc)\<rparr>)"
      by (rule filled)
    show "(?i, apply_overlay r ?group) \<in> set (fd_overlay ?doc)" by (rule page')
    show "?d \<in> set (apply_overlay r ?group)" by (rule drawn)
    show "d_clip ?d = (min x1 x2, min y1 y2, \<bar>x2 - x1\<bar>, \<bar>y2 - y1\<bar>)" by simp
    show "d_font_size ?d = min 12 (\<bar>y2 - y1\<bar> * 0.8)" by simp
    show "d_x ?d = min x1 x2 + 2" by simp
    show "d_y ?d = min y1 y2 + (\<bar>y2 - y1\<bar> - d_font_size ?d) / 2 + 1" by simp
    show "d_text ?d = ?val" by simp
  qed
qed

lemma name_zone_simps:
  "f_source name_zone = ''static_scan''" "f_rect name_zone = Some (100, 700, 250, 715)"
  "f_page name_zone = 1" "f_name name_zone = ''static_Name_0_60''"
  "f_id name_zone = ''static_Name_0_60''"
  by (simp_all add: name_zone_def static_field_def)

lemma john_doe_document:
  "fill (found_fields [name_zone]) no_files ''templates/flat.pdf'' 1
      [(''static_Name_0_60'', ''John Doe'')] ''filled/out.pdf''
     = ([name_zone],
        no_files\<lparr>filled_files := (filled_files no_files)
          (''filled/out.pdf'' \<mapsto>
             \<lparr>fd_acroform_data = [], fd_need_appearances = False,
              fd_overlay = [(0, [\<lparr>d_clip = (100, 700, 150, 15), d_font_size = 12, d_x = 102,
                                   d_y = 702.5, d_text = ''John Doe''\<rparr>])]\<rparr>)\<rparr>)"
proof -
  note v = john_doe
  have routed: "route_fields [(''static_Name_0_60'', ''John Doe'')] [name_zone] = ([], [name_zone])"
    by (simp add: route_fields_def name_zone_simps v)
  have drawn: "overlay_field [(''static_Name_0_60'', ''John Doe'')] name_zone
      = Some \<lparr>d_clip = (100, 700, 150, 15), d_font_size = 12, d_x = 102,
               d_y = 702.5, d_text = ''John Doe''\<rparr>"
    by (simp add: overlay_field_def draw_text_field_def name_zone_simps v Let_def)
  have pages: "overlay_pages [(''static_Name_0_60'', ''John Doe'')] 1 [name_zone]
      = [(0, [\<lparr>d_clip = (100, 700, 150, 15), d_font_size = 12, d_x = 102,
                d_y = 702.5, d_text = ''John Doe''\<rparr>])]"
    by (simp add: overlay_pages_def apply_overlay_def List.map_filter_simps name_zone_simps(3)
        drawn Let_def)
  show ?thesis
    unfolding fill_document[OF found_fields_analysis] routed
    by (simp add: pages[unfolded One_nat_def])
qed

theorem overlay_text_geometry_witness:
  "\<exists>doc draws d.
      fill (found_fields [name_zone]) no_files ''templates/flat.pdf'' 1
        [(''static_Name_0_60'', ''John Doe'')] ''filled/out.pdf''
        = ([name_zone], no_files\<lparr>filled_files := (filled_files no_files)(''filled/out.pdf'' \<mapsto> doc)\<rparr>)
    \<and> (0, draws) \<in> set (fd_overlay doc) \<and> d \<in> set draws
    \<and> d_clip d = (100, 700, 150, 15) \<and> d_font_size d = 12 \<and> d_x d = 102 \<and> d_y d = 702.5
    \<and> d_text d = ''John Doe''"
proof -
  have m: "name_zone \<in> set [name_zone]" by simp
  have s: "f_source name_zone \<noteq> ''acroform'' \<or> f_id name_zone = []"
    by (simp add: name_zone_simps)
  have v: "strip (record_get [(''static_Name_0_60'', ''John Doe'')] (f_name name_zone) []) \<noteq> []"
    by (simp add: john_doe name_zone_simps)
  have p: "1 \<le> f_page name_zone" "f_page name_zone \<le> 1"
    by (simp_all add: name_zone_simps)
  from overlay_text_geometry [OF found_fields_analysis m s name_zone_simps(2) v p,
      of "''templates/flat.pdf''" "''filled/out.pdf''"]
  obtain doc draws d where
    "fill (found_fields [name_zone]) no_files ''templates/flat.pdf'' 1
        [(''static_Name_0_60'', ''John Doe'')] ''filled/out.pdf''
        = ([name_zone], no_files\<lparr>filled_files := (filled_files no_files)(''filled/out.pdf'' \<mapsto> doc)\<rparr>)"
    "(f_page name_zone - 1, draws) \<in> set (fd_overlay doc)" "d \<in> set draws"
    "d_clip d = (min 100 250, min 700 715, \<bar>250 - 100\<bar>, \<bar>715 - 700\<bar>)"
    "d_font_size d = min 12 (\<bar>715 - 700\<bar> * 0.8)"
    "d_x d = min 100 250 + 2"
    "d_y d = min 700 715 + (\<bar>715 - 700\<bar> - d_font_size d) / 2 + 1"
    "d_text d = strip (record_get [(''static_Name_0_60'', ''John Doe'')] (f_name name_zone) [])"
    by blast
  then show ?thesis
    by (intro exI[of _ doc] exI[of _ draws] exI[of _ d]) (simp add: john_doe name_zone_simps)
qed

text \<open>
  The claim as stated has the text vertically centred.  In the rectangle
  \<open>[100, 700, 250, 715]\<close> the baseline of "John Doe" is at 702.5: the band of the font's
  height 12 above it leaves 2.5 units below and 0.5 units above, while the centred
  baseline is at 701.5.
\<close>

theorem overlay_text_geometry_counterexample:
  "fill (found_fields [name_zone]) no_files ''templates/flat.pdf'' 1
      [(''static_Name_0_60'', ''John Doe'')] ''filled/out.pdf''
     = ([name_zone],
        no_files\<lparr>filled_files := (filled_files no_files)
          (''filled/out.pdf'' \<mapsto>
             \<lparr>fd_acroform_data = [], fd_need_appearances = False,
              fd_overlay = [(0, [\<lparr>d_clip = (100, 700, 150, 15), d_font_size = 12, d_x = 102,
                                   d_y = 702.5, d_text = ''John Doe''\<rparr>])]\<rparr>)\<rparr>)
   \<and> (702.5 :: real) - 700 \<noteq> (700 + 15) - (702.5 + 12)
   \<and> (702.5 :: real) \<noteq> 700 + (15 - 12) / 2"
  using john_doe_document by simp

subsection \<open>Checkboxes\<close>





lemma export_options_non_off:
  "''/Off'' \<notin> set (export_options_of (Some ''/Btn'') (Some keys) opt)"
  "export_options_of (Some ''/Btn'') (Some keys) opt = filter (\<lambda>k. k \<noteq> ''/Off'') keys"
  by (simp_all add: export_options_of_def)






subsection \<open>The audit trail\<close>

lemma fill_snapshot:
  "fst (fill scan w template_path n_pages r output_path) = fst (analyze_template scan w template_path)"
  by (simp add: fill_def split: prod.splits)

lemma fill_audit_state:
  "run_history (snd (fill scan w template_path n_pages r output_path))
     = run_history (snd (analyze_template scan w template_path))"
  "snapshot_files (snd (fill scan w template_path n_pages r output_path))
     = snapshot_files (snd (analyze_template scan w template_path))"
  by (simp_all add: fill_def split: prod.splits)

lemma log_run_audit:
  "run_history (log_run w rd) = run_history w @ [rd]"
  "snapshot_files (log_run w rd) =
     (if rd_mapping_snapshot_id rd \<noteq> []
      then (snapshot_files w)
             (path_join filled_meta_dir
                (filter (\<lambda>c. isalnum c \<or> c \<in> set ''_-'') (rd_mapping_snapshot_id rd) @ ''_mapping.json'')
              \<mapsto> rd_mapping_snapshot rd)
      else snapshot_files w)"
  by (simp_all add: log_run_def Let_def)

lemma fill_single_record_audit:
  assumes "template_files w (path_join templates_dir template_filename) = Some pdf"
  shows "audit_view (fill_single_record scan run_id today now w r template_filename) =
           (let analysed = analyze_template scan w (path_join templates_dir template_filename);
                output_path = path_join (path_join filled_dir today)
                                (safe_name_of r @ ''_'' @ last6 run_id @ ''_'' @ template_filename);
                snapshot_id = safe_name_of r @ ''_'' @ last6 run_id
            in Inr (output_path,
                    run_history (snd analysed) @
                      [\<lparr>rd_run_id = run_id,
                        rd_template_id = template_filename,
                        rd_operator_id = record_get r ''operator_id'' ''system'',
                        rd_timestamp = now,
                        rd_mapping_snapshot_id = snapshot_id,
                        rd_mapping_snapshot = fst analysed,
                        rd_input_payload_keys = map fst r,
                        rd_filled_pdf_path = output_path\<rparr>],
                    (snapshot_files (snd analysed))
                      (path_join filled_meta_dir
                         (filter (\<lambda>c. isalnum c \<or> c \<in> set ''_-'') snapshot_id @ ''_mapping.json'')
                       \<mapsto> fst analysed)))"
proof -
  let ?tp = "path_join templates_dir template_filename"
  let ?out = "path_join (path_join filled_dir today)
                (safe_name_of r @ ''_'' @ last6 run_id @ ''_'' @ template_filename)"
  obtain snap w1 where f: "fill scan w ?tp (pdf_pages pdf) r ?out = (snap, w1)"
    by (cases "fill scan w ?tp (pdf_pages pdf) r ?out")
  from f have snap: "snap = fst (analyze_template scan w ?tp)"
    using fill_snapshot[of scan w ?tp "pdf_pages pdf" r ?out] by simp
  from f have h: "run_history w1 = run_history (snd (analyze_template scan w ?tp))"
    and sf: "snapshot_files w1 = snapshot_files (snd (analyze_template scan w ?tp))"
    using fill_audit_state[of scan w ?tp "pdf_pages pdf" r ?out] by simp_all
  have "fill_single_record scan run_id today now w r template_filename =
          Inr (?out, log_run w1
                 \<lparr>rd_run_id = run_id,
                  rd_template_id = template_filename,
                  rd_operator_id = record_get r ''operator_id'' ''system'',
                  rd_timestamp = now,
                  rd_mapping_snapshot_id = safe_name_of r @ ''_'' @ last6 run_id,
                  rd_mapping_snapshot = snap,
                  rd_input_payload_keys = map fst r,
                  rd_filled_pdf_path = ?out\<rparr>)"
    using assms f by (simp add: fill_single_record_def Let_def)
  then show ?thesis
    by (simp add: audit_view_def log_run_audit h sf snap Let_def)
qed

lemma kyc_template_path: "path_join templates_dir ''kyc.pdf'' = ''templates/kyc.pdf''"
  by (simp add: path_join_def templates_dir_def)

lemma kyc_analysis:
  "analyze_template scan kyc_world ''templates/kyc.pdf'' = ([dob_mapped], kyc_world)"
  by (simp add: analyze_template_def cached_mappings_def kyc_path load_saved_params_def
      kyc_id_path kyc_world_def Let_def)

lemma jane_simps:
  "safe_name_of (jane_record dob) = ''Jane_Roe''"
  "record_get (jane_record dob) ''operator_id'' ''system'' = ''op42''"
  "map fst (jane_record dob) = [''registered_name'', ''operator_id'', ''date_of_birth'']"
  by (simp_all add: safe_name_of_def jane_record_def record_get_def replace_char_def strip_def
      isspace_def whitespace_def isalpha_def isdigit_def ascii_uppercase_def ascii_lowercase_def
      ascii_digits_def)

lemma jane_audit:
  "audit_view (fill_single_record (\<lambda>w p. ([], w)) ''7d9f-c0ffee'' ''20240101'' 300 kyc_world
                 (jane_record dob) ''kyc.pdf'')
     = Inr (''filled/20240101/Jane_Roe_c0ffee_kyc.pdf'',
            [\<lparr>rd_run_id = ''7d9f-c0ffee'', rd_template_id = ''kyc.pdf'', rd_operator_id = ''op42'',
              rd_timestamp = 300, rd_mapping_snapshot_id = ''Jane_Roe_c0ffee'',
              rd_mapping_snapshot = [dob_mapped],
              rd_input_payload_keys = [''registered_name'', ''operator_id'', ''date_of_birth''],
              rd_filled_pdf_path = ''filled/20240101/Jane_Roe_c0ffee_kyc.pdf''\<rparr>],
            [''filled_metadata/Jane_Roe_c0ffee_mapping.json'' \<mapsto> [dob_mapped]])"
proof -
  have t: "template_files kyc_world (path_join templates_dir ''kyc.pdf'')
             = Some \<lparr>pdf_mtime = 100, pdf_pages = 1\<rparr>"
    by (simp add: kyc_template_path kyc_world_def)
  have w: "run_history kyc_world = []" "snapshot_files kyc_world = Map.empty"
    by (simp_all add: kyc_world_def no_files_def)
  show ?thesis
    unfolding fill_single_record_audit[OF t]
    by (simp add: kyc_analysis jane_simps w last6_def path_join_def templates_dir_def
        filled_dir_def filled_meta_dir_def isalnum_def isalpha_def isdigit_def
        ascii_uppercase_def ascii_lowercase_def ascii_digits_def Let_def)
qed

lemma jane_run:
  "fill_single_record (\<lambda>w p. ([], w)) ''7d9f-c0ffee'' ''20240101'' 300 kyc_world
     (jane_record ''1990-01-01'') ''kyc.pdf''
     = Inr (''filled/20240101/Jane_Roe_c0ffee_kyc.pdf'', audited_world)"
proof -
  let ?run = "fill_single_record (\<lambda>w p. ([], w)) ''7d9f-c0ffee'' ''20240101'' 300 kyc_world
     (jane_record ''1990-01-01'') ''kyc.pdf''"
  from jane_audit[of "''1990-01-01''"] obtain w' where
    "?run = Inr (''filled/20240101/Jane_Roe_c0ffee_kyc.pdf'', w')"
    by (cases ?run) (auto simp: audit_view_def)
  then show ?thesis by (simp add: audited_world_def)
qed

text \<open>
  Claim C9, as the code has it.  What a fill run persists for the audit (the appended
  entry of the run history and the snapshot file, with its name) depends on the data
  record only through the list of its keys, the value of \<^verbatim>\<open>operator_id\<close> and the
  sanitised value of \<^verbatim>\<open>registered_name\<close>: two records that agree on these leave the
  same audit data, whatever their other values are.  The snapshot is the field list of
  the template's analysis, which does not read the record.
\<close>

theorem audit_independent_of_values:
  assumes "map fst r1 = map fst r2"
      and "record_get r1 ''operator_id'' ''system'' = record_get r2 ''operator_id'' ''system''"
      and "safe_name_of r1 = safe_name_of r2"
  shows "audit_view (fill_single_record scan run_id today now w r1 template_filename)
       = audit_view (fill_single_record scan run_id today now w r2 template_filename)"
proof (cases "template_files w (path_join templates_dir template_filename)")
  case None
  then show ?thesis by (simp add: fill_single_record_def audit_view_def)
next
  case (Some pdf)
  show ?thesis
    unfolding fill_single_record_audit[OF Some] assms ..
qed

theorem audit_independent_of_values_witness:
  "audit_view (fill_single_record (\<lambda>w p. ([], w)) ''7d9f-c0ffee'' ''20240101'' 300 kyc_world
                 (jane_record ''1990-01-01'') ''kyc.pdf'')
   = audit_view (fill_single_record (\<lambda>w p. ([], w)) ''7d9f-c0ffee'' ''20240101'' 300 kyc_world
                 (jane_record ''1985-05-05'') ''kyc.pdf'')"
proof -
  have k: "map fst (jane_record ''1990-01-01'') = map fst (jane_record ''1985-05-05'')"
    and o: "record_get (jane_record ''1990-01-01'') ''operator_id'' ''system''
              = record_get (jane_record ''1985-05-05'') ''operator_id'' ''system''"
    and n: "safe_name_of (jane_record ''1990-01-01'') = safe_name_of (jane_record ''1985-05-05'')"
    by (simp_all add: jane_simps)
  from audit_independent_of_values [OF k o n] show ?thesis .
qed

text \<open>
  The claim as stated says that no value of the record is persisted.  The entry of the
  run below holds the record's value of \<^verbatim>\<open>operator_id\<close>, and the record's registered
  name, with the blank replaced, is part of the snapshot id, of the path of the filled
  document and of the snapshot's file name.
\<close>

theorem audit_independent_of_values_counterexample:
  "fill_single_record (\<lambda>w p. ([], w)) ''7d9f-c0ffee'' ''20240101'' 300 kyc_world
     (jane_record ''1990-01-01'') ''kyc.pdf''
     = Inr (''filled/20240101/Jane_Roe_c0ffee_kyc.pdf'', audited_world)
   \<and> map_of (jane_record ''1990-01-01'') ''operator_id'' = Some ''op42''
   \<and> map_of (jane_record ''1990-01-01'') ''registered_name'' = Some ''Jane Roe''
   \<and> map rd_operator_id (run_history audited_world) = [''op42'']
   \<and> map rd_mapping_snapshot_id (run_history audited_world) = [''Jane_Roe_c0ffee'']
   \<and> map rd_filled_pdf_path (run_history audited_world)
        = [''filled/20240101/Jane_Roe_c0ffee_kyc.pdf'']
   \<and> snapshot_files audited_world ''filled_metadata/Jane_Roe_c0ffee_mapping.json''
        = Some [dob_mapped]"
proof -
  from jane_audit[of "''1990-01-01''"] jane_run
  have "run_history audited_world =
            [\<lparr>rd_run_id = ''7d9f-c0ffee'', rd_template_id = ''kyc.pdf'', rd_operator_id = ''op42'',
              rd_timestamp = 300, rd_mapping_snapshot_id = ''Jane_Roe_c0ffee'',
              rd_mapping_snapshot = [dob_mapped],
              rd_input_payload_keys = [''registered_name'', ''operator_id'', ''date_of_birth''],
              rd_filled_pdf_path = ''filled/20240101/Jane_Roe_c0ffee_kyc.pdf''\<rparr>]"
    and "snapshot_files audited_world
           = [''filled_metadata/Jane_Roe_c0ffee_mapping.json'' \<mapsto> [dob_mapped]]"
    by (simp_all add: audit_view_def)
  with jane_run show ?thesis
    by (simp add: jane_record_def)
qed

end
